theory Spec2Isabelle
  imports Main "HOL-Library.Monad_Syntax" "HOL-Library.Sublist"
begin

section \<open>ECMAScript time values and the Date operations used by the scrapers\<close>

text \<open>
  A Date object holds a time value: an integral number of milliseconds since the epoch
  (UTC), or NaN for an Invalid Date. All numbers that occur stay far below \<open>2^53\<close>, so the
  double arithmetic of the source is exact integer arithmetic; NaN is \<open>None\<close>.
  The functions below are the abstract operations of the ECMAScript specification
  (section "Date Objects") that \<open>getDay\<close>, \<open>getDate\<close>, \<open>setDate\<close>, \<open>setHours\<close>,
  \<open>getTime\<close> and \<open>toISOString\<close> are defined by. The local time zone of the host is the
  parameter \<open>tz\<close> of everything that reads or sets local time.
\<close>

type_synonym timeval = "int option"

definition msPerDay :: int where "msPerDay = 86400000"
definition msPerHour :: int where "msPerHour = 3600000"
definition msPerMinute :: int where "msPerMinute = 60000"
definition msPerSecond :: int where "msPerSecond = 1000"

definition Day :: "int \<Rightarrow> int" where
  "Day t = t div msPerDay"

definition TimeWithinDay :: "int \<Rightarrow> int" where
  "TimeWithinDay t = t mod msPerDay"

definition DaysInYear :: "int \<Rightarrow> int" where
  "DaysInYear y =
     (if y mod 4 \<noteq> 0 then 365
      else if y mod 100 \<noteq> 0 then 366
      else if y mod 400 \<noteq> 0 then 365
      else 366)"

definition DayFromYear :: "int \<Rightarrow> int" where
  "DayFromYear y =
     365 * (y - 1970) + (y - 1969) div 4 - (y - 1901) div 100 + (y - 1601) div 400"

text \<open>
  \<open>YearFromTime t\<close> is the largest \<open>y\<close> with \<open>DayFromYear y \<le> Day t\<close>. It is computed from
  the estimate given by the mean length of a Gregorian year (146097 days in 400 years),
  which is never off by more than one.
\<close>

definition YearFromTime :: "int \<Rightarrow> int" where
  "YearFromTime t =
     (let d = Day t; y = 1970 + (400 * d) div 146097
      in if DayFromYear (y + 1) \<le> d then y + 1
         else if DayFromYear y \<le> d then y
         else y - 1)"

definition leapDays :: "int \<Rightarrow> int" where
  "leapDays y = (if DaysInYear y = 366 then 1 else 0)"

definition InLeapYear :: "int \<Rightarrow> int" where
  "InLeapYear t = leapDays (YearFromTime t)"

definition DayWithinYear :: "int \<Rightarrow> int" where
  "DayWithinYear t = Day t - DayFromYear (YearFromTime t)"

text \<open>The day within the year on which month \<open>m\<close> (0 to 11) starts; \<open>l\<close> is 1 in a leap year.\<close>

definition monthStart :: "int \<Rightarrow> int \<Rightarrow> int" where
  "monthStart m l =
     (if m = 0 then 0 else if m = 1 then 31
      else [59, 90, 120, 151, 181, 212, 243, 273, 304, 334] ! nat (m - 2) + l)"

definition MonthFromTime :: "int \<Rightarrow> int" where
  "MonthFromTime t =
     (let d = DayWithinYear t; l = InLeapYear t
      in if d < 31 then 0
         else if d < 59 + l then 1
         else if d < 90 + l then 2
         else if d < 120 + l then 3
         else if d < 151 + l then 4
         else if d < 181 + l then 5
         else if d < 212 + l then 6
         else if d < 243 + l then 7
         else if d < 273 + l then 8
         else if d < 304 + l then 9
         else if d < 334 + l then 10
         else 11)"

definition DateFromTime :: "int \<Rightarrow> int" where
  "DateFromTime t = DayWithinYear t - monthStart (MonthFromTime t) (InLeapYear t) + 1"

definition WeekDay :: "int \<Rightarrow> int" where
  "WeekDay t = (Day t + 4) mod 7"

definition HourFromTime :: "int \<Rightarrow> int" where
  "HourFromTime t = (t div msPerHour) mod 24"

definition MinFromTime :: "int \<Rightarrow> int" where
  "MinFromTime t = (t div msPerMinute) mod 60"

definition SecFromTime :: "int \<Rightarrow> int" where
  "SecFromTime t = (t div msPerSecond) mod 60"

definition msFromTime :: "int \<Rightarrow> int" where
  "msFromTime t = t mod msPerSecond"

text \<open>
  The local time zone adjustment \<open>LocalTZA(t, isUTC)\<close> is left to the host: it is the offset
  of the host's zone from UTC, in milliseconds, in force at the time value \<open>t\<close> when \<open>isUTC\<close>
  is true, and in force at the local time \<open>t\<close> when \<open>isUTC\<close> is false, where a local time
  that a change of the zone repeats or skips is read with the offset before the change. In
  a zone with daylight saving time it depends on \<open>t\<close>. A zone is any such function with
  offsets below 24 hours, as those of all zones are. Nothing else is assumed of it: what
  is proved for every zone holds whatever the rules of the zone are.
\<close>

typedef zone = "{f :: int \<Rightarrow> bool \<Rightarrow> int. \<forall>t isUTC. \<bar>f t isUTC\<bar> < msPerDay}"
  by (rule exI [of _ "\<lambda>t isUTC. 0"]) (simp add: msPerDay_def)

setup_lifting type_definition_zone

lift_definition LocalTZA :: "zone \<Rightarrow> int \<Rightarrow> bool \<Rightarrow> int" is "\<lambda>f. f" .

definition LocalTime :: "zone \<Rightarrow> int \<Rightarrow> int" where
  "LocalTime tz t = t + LocalTZA tz t True"

definition UTC :: "zone \<Rightarrow> int \<Rightarrow> int" where
  "UTC tz t = t - LocalTZA tz t False"

definition MakeTime :: "int \<Rightarrow> int \<Rightarrow> int \<Rightarrow> int \<Rightarrow> int" where
  "MakeTime h m s milli = h * msPerHour + m * msPerMinute + s * msPerSecond + milli"

text \<open>
  \<open>MakeDay\<close>: the day number of the first day of month \<open>month\<close> of \<open>year\<close> (months outside
  0 to 11 carry into the year), plus \<open>date - 1\<close>; \<open>date\<close> may be any integer.
\<close>

definition MakeDay :: "int \<Rightarrow> int \<Rightarrow> int \<Rightarrow> int" where
  "MakeDay year month date =
     (let ym = year + month div 12; mn = month mod 12
      in DayFromYear ym + monthStart mn (leapDays ym) + date - 1)"

definition MakeDate :: "int \<Rightarrow> int \<Rightarrow> int" where
  "MakeDate day time = day * msPerDay + time"

definition maxTime :: int where "maxTime = 8640000000000000"

definition TimeClip :: "int \<Rightarrow> timeval" where
  "TimeClip t = (if \<bar>t\<bar> > maxTime then None else Some t)"

text \<open>The methods of Date. A method that mutates its object returns the new time value.\<close>

definition getTime :: "timeval \<Rightarrow> int option" where
  "getTime d = d"

definition getDay :: "zone \<Rightarrow> timeval \<Rightarrow> int option" where
  "getDay tz d = map_option (\<lambda>t. WeekDay (LocalTime tz t)) d"

definition getDate :: "zone \<Rightarrow> timeval \<Rightarrow> int option" where
  "getDate tz d = map_option (\<lambda>t. DateFromTime (LocalTime tz t)) d"

definition setDate :: "zone \<Rightarrow> timeval \<Rightarrow> int option \<Rightarrow> timeval" where
  "setDate tz d date =
     (case d of None \<Rightarrow> None
      | Some t0 \<Rightarrow>
         (case date of None \<Rightarrow> None
          | Some dt \<Rightarrow>
             (let t = LocalTime tz t0;
                  newDate = MakeDate (MakeDay (YearFromTime t) (MonthFromTime t) dt)
                              (TimeWithinDay t)
              in TimeClip (UTC tz newDate))))"

definition setHours :: "zone \<Rightarrow> timeval \<Rightarrow> int \<Rightarrow> int \<Rightarrow> int \<Rightarrow> int \<Rightarrow> timeval" where
  "setHours tz d h m s milli =
     (case d of None \<Rightarrow> None
      | Some t0 \<Rightarrow>
         (let t = LocalTime tz t0;
              date = MakeDate (Day t) (MakeTime h m s milli)
          in TimeClip (UTC tz date)))"

text \<open>The relational operator \<open>>\<close> on numbers: false as soon as one side is NaN.\<close>

definition num_gt :: "int option \<Rightarrow> int option \<Rightarrow> bool" where
  "num_gt a b = (case (a, b) of (Some x, Some y) \<Rightarrow> x > y | _ \<Rightarrow> False)"

text \<open>The remainder operator \<open>%\<close>: the result has the sign of the dividend.\<close>

definition js_rem :: "int \<Rightarrow> int \<Rightarrow> int" where
  "js_rem a b = sgn a * (\<bar>a\<bar> mod \<bar>b\<bar>)"


section \<open>Strings\<close>

text \<open>\<open>String.prototype.includes\<close>: the argument occurs somewhere in the string.\<close>

fun str_includes :: "string \<Rightarrow> string \<Rightarrow> bool" where
  "str_includes [] sub = prefix sub []"
| "str_includes (c # s) sub = (prefix sub (c # s) \<or> str_includes s sub)"

text \<open>A number printed in decimal with exactly \<open>n\<close> digits (the low \<open>n\<close> digits).\<close>

definition digitChar :: "nat \<Rightarrow> char" where
  "digitChar k = ''0123456789'' ! k"

fun digits :: "nat \<Rightarrow> nat \<Rightarrow> string" where
  "digits 0 k = []"
| "digits (Suc n) k = digits n (k div 10) @ [digitChar (k mod 10)]"

datatype error = RangeError

text \<open>
  \<open>Date.prototype.toISOString\<close>: raises RangeError on an Invalid Date; otherwise the UTC
  fields as \<open>YYYY-MM-DDTHH:mm:ss.sssZ\<close>, the year with a sign and six digits when it is
  outside 0 to 9999.
\<close>

definition yearString :: "int \<Rightarrow> string" where
  "yearString y =
     (if 0 \<le> y \<and> y \<le> 9999 then digits 4 (nat y)
      else (if y < 0 then ''-'' else ''+'') @ digits 6 (nat \<bar>y\<bar>))"

definition toISOString :: "timeval \<Rightarrow> error + string" where
  "toISOString d =
     (case d of None \<Rightarrow> Inl RangeError
      | Some t \<Rightarrow> Inr (
          yearString (YearFromTime t) @ ''-'' @
          digits 2 (nat (MonthFromTime t + 1)) @ ''-'' @
          digits 2 (nat (DateFromTime t)) @ ''T'' @
          digits 2 (nat (HourFromTime t)) @ '':'' @
          digits 2 (nat (MinFromTime t)) @ '':'' @
          digits 2 (nat (SecFromTime t)) @ ''.'' @
          digits 3 (nat (msFromTime t)) @ ''Z''))"

section \<open>The scrapers\<close>

record ScrapedEvent =
  title :: string
  description :: "string option"
  startTime :: timeval
  location :: "string option"
  imageUrl :: "string option"
  sourceUrl :: string
  category :: string
  isFree :: bool

text \<open>
  Every scraper and the aggregator wrap their body in \<open>try { ... } catch { return [] }\<close>:
  whatever the body raises, the caller gets the empty array.
\<close>

definition catchEmpty :: "'e + 'a list \<Rightarrow> 'a list" where
  "catchEmpty r = (case r of Inl err \<Rightarrow> [] | Inr v \<Rightarrow> v)"

subsection \<open>Lexington Farmers Market\<close>

text \<open>
  \<open>now\<close> is the time value of \<open>new Date()\<close>, the clock reading of the run; the Date object
  holding it is \<open>Some now\<close>.
\<close>

definition farmersMarketEvent :: "timeval \<Rightarrow> ScrapedEvent" where
  "farmersMarketEvent eventDate =
     \<lparr> title = ''Downtown Farmers Market'',
       description = Some ''Fresh local produce, honey, plants, and artisan goods. Support local farmers and producers.'',
       startTime = eventDate,
       location = Some ''Tandy Centennial Park, Lexington, KY'',
       imageUrl = Some ''https://images.unsplash.com/photo-1488459716781-31db52582fe9?auto=format&fit=crop&q=80'',
       sourceUrl = ''https://www.lfmky.com/'',
       category = ''food'',
       isFree = True \<rparr>"

definition farmersDate :: "zone \<Rightarrow> int \<Rightarrow> int \<Rightarrow> timeval" where
  "farmersDate tz now i =
     (let eventDate = Some now;
          eventDate = setDate tz eventDate
            (do { d \<leftarrow> getDate tz (Some now);
                  w \<leftarrow> getDay tz (Some now);
                  Some (d + js_rem (6 - w + 7) 7 + i * 7) })
      in setHours tz eventDate 8 0 0 0)"

definition farmersBody :: "zone \<Rightarrow> int \<Rightarrow> int \<Rightarrow> ScrapedEvent list \<Rightarrow> ScrapedEvent list" where
  "farmersBody tz now i events =
     (let eventDate = farmersDate tz now i
      in if num_gt (getTime eventDate) (getTime (Some now))
         then events @ [farmersMarketEvent eventDate]
         else events)"

function farmersLoop :: "zone \<Rightarrow> int \<Rightarrow> int \<Rightarrow> ScrapedEvent list \<Rightarrow> ScrapedEvent list" where
  "farmersLoop tz now i events =
     (if i < 4 then farmersLoop tz now (i + 1) (farmersBody tz now i events) else events)"
  by pat_completeness auto
termination
  by (relation "measure (\<lambda>(tz, now, i, events). nat (4 - i))") auto

definition scrapeLexingtonFarmersMarket_body :: "zone \<Rightarrow> int \<Rightarrow> error + ScrapedEvent list" where
  "scrapeLexingtonFarmersMarket_body tz now = Inr (farmersLoop tz now 0 [])"

definition scrapeLexingtonFarmersMarket :: "zone \<Rightarrow> int \<Rightarrow> ScrapedEvent list" where
  "scrapeLexingtonFarmersMarket tz now = catchEmpty (scrapeLexingtonFarmersMarket_body tz now)"

subsection \<open>Church events\<close>

record Church =
  ch_name :: string
  ch_event :: string
  ch_day :: int
  ch_time :: int
  ch_location :: string
  ch_url :: string

definition churches :: "Church list" where
  "churches =
     [ \<lparr> ch_name = ''Southland Christian Church'',
         ch_event = ''Sunday Worship Service'',
         ch_day = 0,
         ch_time = 10,
         ch_location = ''3530 Man O War Blvd, Lexington, KY'',
         ch_url = ''https://www.southland.org/'' \<rparr>,
       \<lparr> ch_name = ''First Presbyterian Church'',
         ch_event = ''Wednesday Evening Fellowship Dinner'',
         ch_day = 3,
         ch_time = 18,
         ch_location = ''171 N Mill St, Lexington, KY'',
         ch_url = ''https://www.fpclexington.org/'' \<rparr> ]"

definition churchEvent :: "Church \<Rightarrow> timeval \<Rightarrow> ScrapedEvent" where
  "churchEvent church date =
     \<lparr> title = ch_name church @ '': '' @ ch_event church,
       description = Some (''Join us for '' @ ch_event church @ '' at '' @ ch_name church @ ''.''),
       startTime = date,
       location = Some (ch_location church),
       imageUrl = Some ''https://images.unsplash.com/photo-1516306574312-e4c05dab37fa?auto=format&fit=crop&q=80'',
       sourceUrl = ch_url church,
       category = ''community'',
       isFree = True \<rparr>"

text \<open>The next occurrence of the church's weekday, at the church's hour.\<close>

definition churchDate :: "zone \<Rightarrow> int \<Rightarrow> Church \<Rightarrow> timeval" where
  "churchDate tz now church =
     (let eventDate = Some now;
          daysUntilEvent = do { w \<leftarrow> getDay tz eventDate; Some (js_rem (ch_day church - w + 7) 7) };
          eventDate = setDate tz eventDate
            (do { d \<leftarrow> getDate tz eventDate; k \<leftarrow> daysUntilEvent; Some (d + k) })
      in setHours tz eventDate (ch_time church) 0 0 0)"

definition weekDate :: "zone \<Rightarrow> timeval \<Rightarrow> int \<Rightarrow> timeval" where
  "weekDate tz eventDate week =
     (let date = eventDate
      in setDate tz date (do { d \<leftarrow> getDate tz date; Some (d + week * 7) }))"

definition weekBody :: "zone \<Rightarrow> int \<Rightarrow> Church \<Rightarrow> timeval \<Rightarrow> int \<Rightarrow> ScrapedEvent list \<Rightarrow> ScrapedEvent list" where
  "weekBody tz now church eventDate week events =
     (let date = weekDate tz eventDate week
      in if num_gt (getTime date) (getTime (Some now))
         then events @ [churchEvent church date]
         else events)"

function weekLoop :: "zone \<Rightarrow> int \<Rightarrow> Church \<Rightarrow> timeval \<Rightarrow> int \<Rightarrow> ScrapedEvent list \<Rightarrow> ScrapedEvent list" where
  "weekLoop tz now church eventDate week events =
     (if week < 8
      then weekLoop tz now church eventDate (week + 1) (weekBody tz now church eventDate week events)
      else events)"
  by pat_completeness auto
termination
  by (relation "measure (\<lambda>(tz, now, church, eventDate, week, events). nat (8 - week))") auto

definition churchBody :: "zone \<Rightarrow> int \<Rightarrow> ScrapedEvent list \<Rightarrow> Church \<Rightarrow> ScrapedEvent list" where
  "churchBody tz now events church = weekLoop tz now church (churchDate tz now church) 0 events"

definition scrapeChurchEvents_body :: "zone \<Rightarrow> int \<Rightarrow> error + ScrapedEvent list" where
  "scrapeChurchEvents_body tz now = Inr (foldl (churchBody tz now) [] churches)"

definition scrapeChurchEvents :: "zone \<Rightarrow> int \<Rightarrow> ScrapedEvent list" where
  "scrapeChurchEvents tz now = catchEmpty (scrapeChurchEvents_body tz now)"

subsection \<open>Community events and yard sales\<close>

record CommunityEvent =
  ce_title :: string
  ce_description :: string
  ce_location :: string
  ce_date :: int
  ce_time :: int
  ce_url :: string

definition communityEvents :: "CommunityEvent list" where
  "communityEvents =
     [ \<lparr> ce_title = ''Community Cleanup Day at Shriners Park'',
         ce_description = ''Join neighbors to clean and beautify our local park. All ages welcome!'',
         ce_location = ''Shriners Park, Lexington, KY'',
         ce_date = 7,
         ce_time = 9,
         ce_url = ''https://www.nextdoor.com/'' \<rparr>,
       \<lparr> ce_title = ''East Side Neighborhood Yard Sale'',
         ce_description = ''Multi-family yard sale across East Side neighborhood. Great deals on furniture, clothes, and more!'',
         ce_location = ''East Side, Lexington, KY'',
         ce_date = 14,
         ce_time = 8,
         ce_url = ''https://www.craigslist.org/search/sss'' \<rparr>,
       \<lparr> ce_title = ''Paint & Sip Night'',
         ce_description = ''Paint while enjoying beverages with friends. No experience needed. Supplies provided.'',
         ce_location = ''Downtown Lexington Community Center'',
         ce_date = 4,
         ce_time = 19,
         ce_url = ''https://www.lexingtonky.gov/'' \<rparr> ]"

definition communityDate :: "zone \<Rightarrow> int \<Rightarrow> CommunityEvent \<Rightarrow> timeval" where
  "communityDate tz now event =
     (let eventDate = Some now;
          eventDate = setDate tz eventDate
            (do { d \<leftarrow> getDate tz eventDate; Some (d + ce_date event) })
      in setHours tz eventDate (ce_time event) 0 0 0)"

definition communityRecord :: "CommunityEvent \<Rightarrow> timeval \<Rightarrow> ScrapedEvent" where
  "communityRecord event eventDate =
     \<lparr> title = ce_title event,
       description = Some (ce_description event),
       startTime = eventDate,
       location = Some (ce_location event),
       imageUrl = Some ''https://images.unsplash.com/photo-1552664730-d307ca884978?auto=format&fit=crop&q=80'',
       sourceUrl = ce_url event,
       category = ''community'',
       isFree = str_includes (ce_title event) ''Cleanup'' \<rparr>"

definition communityBody :: "zone \<Rightarrow> int \<Rightarrow> ScrapedEvent list \<Rightarrow> CommunityEvent \<Rightarrow> ScrapedEvent list" where
  "communityBody tz now events event =
     (let eventDate = communityDate tz now event
      in if num_gt (getTime eventDate) (getTime (Some now))
         then events @ [communityRecord event eventDate]
         else events)"

definition scrapeYardSalesAndCommunityEvents_body :: "zone \<Rightarrow> int \<Rightarrow> error + ScrapedEvent list" where
  "scrapeYardSalesAndCommunityEvents_body tz now = Inr (foldl (communityBody tz now) [] communityEvents)"

definition scrapeYardSalesAndCommunityEvents :: "zone \<Rightarrow> int \<Rightarrow> ScrapedEvent list" where
  "scrapeYardSalesAndCommunityEvents tz now =
     catchEmpty (scrapeYardSalesAndCommunityEvents_body tz now)"

section \<open>The aggregator\<close>

text \<open>The key of the deduplication map: \<open>title|ISO string of startTime|location\<close>.
  A template literal prints an absent location as \<open>undefined\<close>.\<close>

definition eventKey :: "ScrapedEvent \<Rightarrow> error + string" where
  "eventKey event =
     (case toISOString (startTime event) of
        Inl err \<Rightarrow> Inl err
      | Inr isoString \<Rightarrow>
          Inr (title event @ ''|'' @ isoString @ ''|'' @
               (case location event of None \<Rightarrow> ''undefined'' | Some l \<Rightarrow> l)))"

text \<open>\<open>allEvents.map(event => [key, event])\<close>, left to right; the first raise ends it.\<close>

fun mapEntries :: "ScrapedEvent list \<Rightarrow> error + (string \<times> ScrapedEvent) list" where
  "mapEntries [] = Inr []"
| "mapEntries (event # rest) =
     (case eventKey event of
        Inl err \<Rightarrow> Inl err
      | Inr k \<Rightarrow>
          (case mapEntries rest of
             Inl err \<Rightarrow> Inl err
           | Inr entries \<Rightarrow> Inr ((k, event) # entries)))"

text \<open>
  A JavaScript \<open>Map\<close> as the list of its entries in insertion order. \<open>set\<close> on a key that
  is present replaces the value where the entry stands; a new key goes to the end.
\<close>

fun Map_set :: "'k \<Rightarrow> 'v \<Rightarrow> ('k \<times> 'v) list \<Rightarrow> ('k \<times> 'v) list" where
  "Map_set k v [] = [(k, v)]"
| "Map_set k v ((k', v') # m) = (if k' = k then (k, v) # m else (k', v') # Map_set k v m)"

definition new_Map :: "('k \<times> 'v) list \<Rightarrow> ('k \<times> 'v) list" where
  "new_Map entries = foldl (\<lambda>m (k, v). Map_set k v m) [] entries"

definition Map_values :: "('k \<times> 'v) list \<Rightarrow> 'v list" where
  "Map_values m = map snd m"

text \<open>\<open>Array.from(new Map(allEvents.map(...)).values())\<close>\<close>

definition uniqueEvents :: "ScrapedEvent list \<Rightarrow> error + ScrapedEvent list" where
  "uniqueEvents allEvents =
     (case mapEntries allEvents of
        Inl err \<Rightarrow> Inl err
      | Inr entries \<Rightarrow> Inr (Map_values (new_Map entries)))"

text \<open>
  \<open>Array.prototype.sort\<close> with a comparator is a stable sort; a comparator result of NaN
  counts as 0. Insertion from the right end is one such sort.
\<close>

definition compareFn :: "ScrapedEvent \<Rightarrow> ScrapedEvent \<Rightarrow> int option" where
  "compareFn a b = do { x \<leftarrow> getTime (startTime a); y \<leftarrow> getTime (startTime b); Some (x - y) }"

fun insertBy :: "('a \<Rightarrow> 'a \<Rightarrow> int option) \<Rightarrow> 'a \<Rightarrow> 'a list \<Rightarrow> 'a list" where
  "insertBy cmp x [] = [x]"
| "insertBy cmp x (y # ys) =
     (if (case cmp x y of None \<Rightarrow> True | Some v \<Rightarrow> v \<le> 0) then x # y # ys
      else y # insertBy cmp x ys)"

definition Array_sort :: "('a \<Rightarrow> 'a \<Rightarrow> int option) \<Rightarrow> 'a list \<Rightarrow> 'a list" where
  "Array_sort cmp xs = foldr (insertBy cmp) xs []"

definition fetchAllEvents_body ::
    "ScrapedEvent list \<Rightarrow> ScrapedEvent list \<Rightarrow> ScrapedEvent list \<Rightarrow> error + ScrapedEvent list" where
  "fetchAllEvents_body farmersMarket churchEvents community =
     (let allEvents = farmersMarket @ churchEvents @ community
      in case uniqueEvents allEvents of
           Inl err \<Rightarrow> Inl err
         | Inr unique \<Rightarrow> Inr (Array_sort compareFn unique))"

text \<open>The aggregator on the arrays the three awaited scrapers resolved to.\<close>

definition aggregate :: "ScrapedEvent list \<Rightarrow> ScrapedEvent list \<Rightarrow> ScrapedEvent list \<Rightarrow> ScrapedEvent list" where
  "aggregate farmersMarket churchEvents community =
     catchEmpty (fetchAllEvents_body farmersMarket churchEvents community)"

definition fetchAllEvents :: "zone \<Rightarrow> int \<Rightarrow> ScrapedEvent list" where
  "fetchAllEvents tz now =
     aggregate (scrapeLexingtonFarmersMarket tz now)
               (scrapeChurchEvents tz now)
               (scrapeYardSalesAndCommunityEvents tz now)"

text \<open>
  The three scrapers run one after the other, without an \<open>await\<close> in between, and each
  reads the clock itself; \<open>fetchAllEvents\<close> above is the run in which the three reads give
  the same millisecond. The general run, with the three readings:
\<close>

definition fetchAllEvents_at :: "zone \<Rightarrow> int \<Rightarrow> int \<Rightarrow> int \<Rightarrow> ScrapedEvent list" where
  "fetchAllEvents_at tz now1 now2 now3 =
     aggregate (scrapeLexingtonFarmersMarket tz now1)
               (scrapeChurchEvents tz now2)
               (scrapeYardSalesAndCommunityEvents tz now3)"

text \<open>
  \<open>fetchAllEvents\<close> on given outcomes of the three scraper bodies, a raise inside a
  scraper being \<open>Inl\<close>: each scraper's own \<open>catch\<close> turns it into the empty array before
  the aggregator sees it.
\<close>

definition fetchAllEvents_of ::
    "'e + ScrapedEvent list \<Rightarrow> 'e + ScrapedEvent list \<Rightarrow> 'e + ScrapedEvent list \<Rightarrow> ScrapedEvent list" where
  "fetchAllEvents_of farmersOutcome churchOutcome communityOutcome =
     aggregate (catchEmpty farmersOutcome) (catchEmpty churchOutcome) (catchEmpty communityOutcome)"

section \<open>Notions used to state the properties\<close>

text \<open>A list with every element after its first occurrence removed.\<close>

primrec keepFirst :: "'a list \<Rightarrow> 'a list" where
  "keepFirst [] = []"
| "keepFirst (x # xs) = x # removeAll x (keepFirst xs)"

text \<open>
  A local time \<open>x\<close> exists in the zone when the clock shows it at some moment: converted to
  UTC and back it is \<open>x\<close> again. A change of the zone that sets the clocks forward skips the
  local times in between; \<open>setDate\<close> and \<open>setHours\<close> asked for such a time give a moment at
  which the clock shows a later one. \<open>staysOnDay\<close> says that this moment is at least on
  the local day of \<open>x\<close>.
\<close>

definition localTimeExists :: "zone \<Rightarrow> int \<Rightarrow> bool" where
  "localTimeExists tz x \<longleftrightarrow> LocalTime tz (UTC tz x) = x"

definition staysOnDay :: "zone \<Rightarrow> int \<Rightarrow> bool" where
  "staysOnDay tz x \<longleftrightarrow> Day (LocalTime tz (UTC tz x)) = Day x"

text \<open>
  The first candidate of the farmers market scraper is computed through three conversions:
  the local time of \<open>now\<close> on the coming Saturday to UTC, that moment to local time, and
  08:00 of its local day to UTC. The zone is regular on that way in two cases. On a
  Saturday, when the first two conversions stay on the day, and the offsets at 08:00 of
  that day and at \<open>now\<close> are the same or differ by less than the time between 08:00 and
  \<open>now\<close>: a change of the zone between the two does not put them in another order. On
  another day, when the first two conversions together set the clock back by four hours at
  most, and the offset at 08:00 of the candidate's day exceeds the offset at \<open>now\<close> by four
  hours at most. A zone that changes to or from daylight saving time on the way is regular,
  unless on a Saturday the change lies between 08:00 and \<open>now\<close> and these are less than the
  changed hour apart: a local time that the clock showed converts to UTC and back to
  itself, one that was skipped to a later one, and the offset changes by an hour.
\<close>

definition firstCandidateRegular :: "zone \<Rightarrow> int \<Rightarrow> bool" where
  "firstCandidateRegular tz now =
     (let local = LocalTime tz now;
          offset = LocalTZA tz now True
      in if WeekDay local = 6
         then (let change = LocalTZA tz (MakeDate (Day local) (MakeTime 8 0 0 0)) False - offset
               in staysOnDay tz local
                  \<and> (change = 0 \<or> \<bar>change\<bar> < \<bar>MakeTime 8 0 0 0 - TimeWithinDay local\<bar>))
         else (let x = local + (6 - WeekDay local) * msPerDay;
                   u = UTC tz x;
                   y = MakeDate (Day (LocalTime tz u)) (MakeTime 8 0 0 0)
               in LocalTZA tz x False - LocalTZA tz u True \<le> 4 * msPerHour
                  \<and> LocalTZA tz y False - offset \<le> 4 * msPerHour))"

text \<open>
  Zones to run the scrapers in. \<open>zoneOf f\<close> is the zone with the adjustment \<open>f\<close> (a value
  of 24 hours or more, which no zone has, is cut to the range); \<open>fixedZone\<close> is a zone
  without changes.

  \<open>easternAutumn2026\<close> is US Eastern time around the end of daylight saving time on
  1 November 2026: four hours behind UTC until 06:00 UTC of that day, five hours from then
  on; at the clocks, 02:00 is followed by 01:00 again, and the repeated hour is read with
  the offset before the change.

  \<open>kwajalein1993\<close> is the time of Kwajalein around its move across the date line: twelve
  hours behind UTC until the end of Friday 20 August 1993, twelve hours ahead from then on;
  at the clocks, Saturday 21 August is skipped, and its local times are read with the
  offset before the change.

  \<open>datelineEast\<close> is a zone that moves across the date line in the other direction, at
  00:00 UTC of 7 November 2026: twelve hours ahead of UTC before, twelve hours behind from
  then on; at the clocks, Saturday 12:00 is followed by Friday 12:00, and the 24 hours that
  pass twice are read with the offset before the change.
\<close>

lift_definition zoneOf :: "(int \<Rightarrow> bool \<Rightarrow> int) \<Rightarrow> zone" is
  "\<lambda>f t isUTC. max (1 - msPerDay) (min (msPerDay - 1) (f t isUTC))"
  by (simp add: msPerDay_def)

definition fixedZone :: "int \<Rightarrow> zone" where
  "fixedZone offset = zoneOf (\<lambda>t isUTC. offset)"

definition easternAutumn2026 :: zone where
  "easternAutumn2026 =
     zoneOf (\<lambda>t isUTC.
       if isUTC then (if t < 1793512800000 then - 4 * msPerHour else - 5 * msPerHour)
       else (if t < 1793498400000 then - 4 * msPerHour else - 5 * msPerHour))"

definition kwajalein1993 :: zone where
  "kwajalein1993 =
     zoneOf (\<lambda>t isUTC.
       if isUTC then (if t < 745934400000 then - 12 * msPerHour else 12 * msPerHour)
       else (if t < 745977600000 then - 12 * msPerHour else 12 * msPerHour))"

definition datelineEast :: zone where
  "datelineEast =
     zoneOf (\<lambda>t isUTC.
       if isUTC then (if t < 1794009600000 then 12 * msPerHour else - 12 * msPerHour)
       else (if t < 1794052800000 then 12 * msPerHour else - 12 * msPerHour))"

text \<open>The aggregator with the deduplication step left out: concatenate and sort.\<close>

definition fetchAllEvents_noDedup :: "zone \<Rightarrow> int \<Rightarrow> ScrapedEvent list" where
  "fetchAllEvents_noDedup tz now =
     Array_sort compareFn
       (scrapeLexingtonFarmersMarket tz now @ scrapeChurchEvents tz now @
        scrapeYardSalesAndCommunityEvents tz now)"

text \<open>
  Three records for a worked example of the deduplication: two that agree on title, start
  time and location and differ elsewhere, and one other record between them.
\<close>

definition dupEarlier :: ScrapedEvent where
  "dupEarlier = \<lparr> title = ''Fair'', description = Some ''earlier'', startTime = Some 0,
      location = Some ''Park'', imageUrl = None, sourceUrl = ''a'', category = ''food'',
      isFree = True \<rparr>"

definition otherEvent :: ScrapedEvent where
  "otherEvent = \<lparr> title = ''Dinner'', description = None, startTime = Some 0,
      location = None, imageUrl = None, sourceUrl = ''b'', category = ''community'',
      isFree = True \<rparr>"

definition dupLater :: ScrapedEvent where
  "dupLater = \<lparr> title = ''Fair'', description = Some ''later'', startTime = Some 0,
      location = Some ''Park'', imageUrl = None, sourceUrl = ''c'', category = ''community'',
      isFree = False \<rparr>"

text \<open>A record whose start time is an Invalid Date.\<close>

definition invalidEvent :: ScrapedEvent where
  "invalidEvent = dupEarlier \<lparr> startTime := None \<rparr>"

section \<open>Date arithmetic\<close>

text \<open>
  \<open>setDate\<close> on \<open>getDate() + k\<close> moves the local time by \<open>k\<close> days whatever the month is:
  \<open>MakeDay\<close> undoes \<open>DateFromTime\<close>. With \<open>setHours\<close> after it, the result is the given
  hour of the local day on which that moment falls, or an Invalid Date outside the range of
  time values.
\<close>

lemma MonthFromTime_range: "0 \<le> MonthFromTime t \<and> MonthFromTime t \<le> 11"
  by (simp add: MonthFromTime_def Let_def)

lemma MakeDay_DateFromTime:
  "MakeDay (YearFromTime t) (MonthFromTime t) (DateFromTime t + k) = Day t + k"
proof -
  have r: "0 \<le> MonthFromTime t" "MonthFromTime t \<le> 11"
    using MonthFromTime_range by auto
  then have "MonthFromTime t div 12 = 0" "MonthFromTime t mod 12 = MonthFromTime t"
    by auto
  then show ?thesis
    by (simp add: MakeDay_def DateFromTime_def DayWithinYear_def InLeapYear_def)
qed

lemma MakeDate_shift: "MakeDate (Day t + k) (TimeWithinDay t) = t + k * msPerDay"
  by (simp add: MakeDate_def Day_def TimeWithinDay_def algebra_simps)

lemma setDate_getDate_plus:
  "setDate tz (Some t) (do { d \<leftarrow> getDate tz (Some t); Some (d + k) })
     = TimeClip (UTC tz (LocalTime tz t + k * msPerDay))"
  by (simp add: setDate_def getDate_def MakeDay_DateFromTime MakeDate_shift)

lemma setHours_Some:
  "setHours tz (Some u) h 0 0 0 = TimeClip (UTC tz (MakeDate (Day (LocalTime tz u)) (MakeTime h 0 0 0)))"
  by (simp add: setHours_def)

lemma Day_shift: "Day (t + k * msPerDay) = Day t + k"
  by (simp add: Day_def msPerDay_def)

lemma Day_bounds: "Day t * msPerDay \<le> t \<and> t < Day t * msPerDay + msPerDay"
proof -
  have "t = Day t * msPerDay + TimeWithinDay t"
    by (simp add: Day_def TimeWithinDay_def)
  moreover have "0 \<le> TimeWithinDay t \<and> TimeWithinDay t < msPerDay"
    by (simp add: TimeWithinDay_def msPerDay_def)
  ultimately show ?thesis by linarith
qed

lemma Day_TimeWithinDay: "t = Day t * msPerDay + TimeWithinDay t"
  by (simp add: Day_def TimeWithinDay_def)

lemma js_rem_nonneg: "0 \<le> a \<Longrightarrow> 0 < b \<Longrightarrow> js_rem a b = a mod b"
  by (cases "a = 0") (simp_all add: js_rem_def)

lemma WeekDay_range: "0 \<le> WeekDay t \<and> WeekDay t \<le> 6"
  by (simp add: WeekDay_def)

lemma TimeClip_Some: "TimeClip x = Some a \<Longrightarrow> a = x \<and> \<bar>a\<bar> \<le> maxTime"
  by (auto simp: TimeClip_def split: if_splits)

lemma shift_then_hours_gen:
  "setHours tz (setDate tz (Some now) (do { d \<leftarrow> getDate tz (Some now); Some (d + k) })) h 0 0 0
     = (case TimeClip (UTC tz (LocalTime tz now + k * msPerDay)) of None \<Rightarrow> None
        | Some u \<Rightarrow> TimeClip (UTC tz (MakeDate (Day (LocalTime tz u)) (MakeTime h 0 0 0))))"
  unfolding setDate_getDate_plus
  by (cases "TimeClip (UTC tz (LocalTime tz now + k * msPerDay))")
     (simp_all add: setHours_Some, simp add: setHours_def)

lemma shift_then_hours_Some:
  assumes "setHours tz (setDate tz (Some now) (do { d \<leftarrow> getDate tz (Some now); Some (d + k) })) h 0 0 0
             = Some a"
  shows "a = UTC tz (MakeDate (Day (LocalTime tz (UTC tz (LocalTime tz now + k * msPerDay))))
                       (MakeTime h 0 0 0))"
    and "\<bar>a\<bar> \<le> maxTime"
    and "TimeClip (UTC tz (LocalTime tz now + k * msPerDay)) = Some (UTC tz (LocalTime tz now + k * msPerDay))"
proof -
  obtain u where u: "TimeClip (UTC tz (LocalTime tz now + k * msPerDay)) = Some u"
    and a: "TimeClip (UTC tz (MakeDate (Day (LocalTime tz u)) (MakeTime h 0 0 0))) = Some a"
    using assms unfolding shift_then_hours_gen by (auto split: option.splits)
  have e: "u = UTC tz (LocalTime tz now + k * msPerDay)"
    using TimeClip_Some [OF u] by simp
  show "a = UTC tz (MakeDate (Day (LocalTime tz (UTC tz (LocalTime tz now + k * msPerDay))))
                       (MakeTime h 0 0 0))"
    using TimeClip_Some [OF a] unfolding e by blast
  show "\<bar>a\<bar> \<le> maxTime"
    using TimeClip_Some [OF a] by blast
  show "TimeClip (UTC tz (LocalTime tz now + k * msPerDay)) = Some (UTC tz (LocalTime tz now + k * msPerDay))"
    using u unfolding e [symmetric] .
qed

lemma Day_MakeDate_hours:
  assumes "0 \<le> h" "h < 24"
  shows "Day (MakeDate d (MakeTime h 0 0 0)) = d"
    and "TimeWithinDay (MakeDate d (MakeTime h 0 0 0)) = MakeTime h 0 0 0"
proof -
  have "0 \<le> h * 3600000" "h * 3600000 < 86400000"
    using assms by auto
  then show "Day (MakeDate d (MakeTime h 0 0 0)) = d"
    and "TimeWithinDay (MakeDate d (MakeTime h 0 0 0)) = MakeTime h 0 0 0"
    by (simp_all add: Day_def TimeWithinDay_def MakeDate_def MakeTime_def msPerDay_def msPerHour_def
          div_pos_pos_trivial mod_pos_pos_trivial)
qed

lemma HourFromTime_MakeDate:
  assumes "0 \<le> h" "h < 24"
  shows "HourFromTime (MakeDate d (MakeTime h 0 0 0)) = h"
proof -
  have "(d * 86400000 + h * 3600000) div 3600000 = d * 24 + h"
    by simp
  then show ?thesis
    using assms by (simp add: HourFromTime_def MakeDate_def MakeTime_def msPerDay_def msPerHour_def)
qed

lemma WeekDay_shift: "WeekDay t = w \<Longrightarrow> Day t' = Day t + k \<Longrightarrow> WeekDay t' = (w + k) mod 7"
  unfolding WeekDay_def by (metis add.assoc add.commute mod_add_left_eq)

section \<open>The zone\<close>

text \<open>
  All that the results on every run use of the zone: its offsets are below 24 hours. A
  conversion moves a time by less than a day, so candidates a week apart stay in their
  order, and a candidate several days ahead stays ahead of \<open>now\<close>, through any change of
  the zone.
\<close>

lemma LocalTZA_bound: "\<bar>LocalTZA tz t isUTC\<bar> < msPerDay"
  by transfer simp

lemma LocalTZA_zoneOf:
  "LocalTZA (zoneOf f) t isUTC = max (1 - msPerDay) (min (msPerDay - 1) (f t isUTC))"
  by transfer simp

lemma LocalTZA_fixedZone: "\<bar>offset\<bar> < msPerDay \<Longrightarrow> LocalTZA (fixedZone offset) t isUTC = offset"
  by (simp add: fixedZone_def LocalTZA_zoneOf)

lemma LocalTime_bounds: "t - msPerDay < LocalTime tz t \<and> LocalTime tz t < t + msPerDay"
  using LocalTZA_bound [of tz t True] unfolding LocalTime_def by linarith

lemma UTC_bounds: "x - msPerDay < UTC tz x \<and> UTC tz x < x + msPerDay"
  using LocalTZA_bound [of tz x False] unfolding UTC_def by linarith

lemma UTC_increasing:
  assumes "x + 2 * msPerDay \<le> x'"
  shows "UTC tz x < UTC tz x'"
  using assms UTC_bounds [of x tz] UTC_bounds [of x' tz] by linarith

text \<open>The local day of the moment that \<open>setDate\<close> gives, and the hour set on it.\<close>

lemma hours_on_day_increasing:
  assumes "x + 7 * msPerDay \<le> x'"
  shows "UTC tz (MakeDate (Day (LocalTime tz (UTC tz x))) T)
         < UTC tz (MakeDate (Day (LocalTime tz (UTC tz x'))) T)"
proof -
  let ?l = "LocalTime tz (UTC tz x)" and ?l' = "LocalTime tz (UTC tz x')"
  have "?l < x + 2 * msPerDay" "x' - 2 * msPerDay < ?l'"
    using UTC_bounds [of x tz] UTC_bounds [of x' tz]
      LocalTime_bounds [of "UTC tz x" tz] LocalTime_bounds [of "UTC tz x'" tz] by linarith+
  then have "?l + 3 * msPerDay < ?l'"
    using assms by linarith
  then have "Day ?l * msPerDay + 2 * msPerDay < Day ?l' * msPerDay"
    using Day_bounds [of ?l] Day_bounds [of ?l'] by linarith
  then have "MakeDate (Day ?l) T + 2 * msPerDay \<le> MakeDate (Day ?l') T"
    by (simp add: MakeDate_def)
  then show ?thesis
    by (rule UTC_increasing)
qed

lemma later_far:
  assumes "5 \<le> k" "0 \<le> h"
  shows "now < UTC tz (MakeDate (Day (LocalTime tz (UTC tz (LocalTime tz now + k * msPerDay))))
                         (MakeTime h 0 0 0))"
proof -
  let ?x = "LocalTime tz now + k * msPerDay"
  let ?l = "LocalTime tz (UTC tz ?x)"
  let ?y = "MakeDate (Day ?l) (MakeTime h 0 0 0)"
  have k: "5 * msPerDay \<le> k * msPerDay"
    using assms(1) by (simp add: msPerDay_def)
  have h: "0 \<le> MakeTime h 0 0 0"
    using assms(2) by (simp add: MakeTime_def msPerHour_def)
  have "now + 4 * msPerDay < ?x"
    using LocalTime_bounds [of now tz] k by linarith
  then have "now + 2 * msPerDay < ?l"
    using UTC_bounds [of ?x tz] LocalTime_bounds [of "UTC tz ?x" tz] by linarith
  then have "now + msPerDay < Day ?l * msPerDay"
    using Day_bounds [of ?l] by linarith
  then have "now + msPerDay < ?y"
    using h by (simp add: MakeDate_def)
  then show ?thesis
    using UTC_bounds [of ?y tz] by linarith
qed

lemma later_on_day:
  assumes "3 \<le> k" "0 \<le> h"
  shows "now < UTC tz (MakeDate (Day (LocalTime tz now) + k) (MakeTime h 0 0 0))"
proof -
  let ?y = "MakeDate (Day (LocalTime tz now) + k) (MakeTime h 0 0 0)"
  have k: "3 * msPerDay \<le> k * msPerDay"
    using assms(1) by (simp add: msPerDay_def)
  have h: "0 \<le> MakeTime h 0 0 0"
    using assms(2) by (simp add: MakeTime_def msPerHour_def)
  have "now - 2 * msPerDay < Day (LocalTime tz now) * msPerDay"
    using LocalTime_bounds [of now tz] Day_bounds [of "LocalTime tz now"] by linarith
  then have "now + msPerDay < ?y"
    using h k by (simp add: MakeDate_def algebra_simps)
  then show ?thesis
    using UTC_bounds [of ?y tz] by linarith
qed

section \<open>The calendar functions are correct\<close>

text \<open>
  \<open>YearFromTime t\<close> is the year whose days contain \<open>Day t\<close>, as the ECMAScript
  specification defines it; the day of the month lies between 1 and 31.
\<close>

lemma div_succ:
  fixes x n :: int
  assumes "0 < n"
  shows "(x + 1) div n = x div n + (if (x + 1) mod n = 0 then 1 else 0)"
proof -
  define q r where "q = x div n" and "r = x mod n"
  have x: "x = q * n + r" and r: "0 \<le> r" "r < n"
    using assms by (simp_all add: q_def r_def)
  show ?thesis
  proof (cases "r + 1 = n")
    case True
    then have "x + 1 = (q + 1) * n"
      using x by (simp add: algebra_simps)
    then show ?thesis
      using assms by (simp add: q_def)
  next
    case False
    then have r1: "0 \<le> r + 1" "r + 1 < n"
      using r by auto
    have x1: "x + 1 = q * n + (r + 1)"
      using x by simp
    have "(x + 1) div n = q" "(x + 1) mod n = r + 1"
      unfolding x1 using r1 assms by (simp_all add: div_pos_pos_trivial mod_pos_pos_trivial)
    then show ?thesis
      using r by (simp add: q_def)
  qed
qed

lemma mod_shift:
  fixes y n k :: int
  shows "(y - k * n) mod n = y mod n"
proof -
  have "y - k * n = y + (- k) * n" by simp
  then show ?thesis by (simp only: mod_mult_self1)
qed

lemma mod_4_shift: "(y - 1968) mod 4 = (y::int) mod 4"
  using mod_shift [of y 492 4] by simp

lemma mod_100_shift: "(y - 1900) mod 100 = (y::int) mod 100"
  using mod_shift [of y 19 100] by simp

lemma mod_400_shift: "(y - 1600) mod 400 = (y::int) mod 400"
  using mod_shift [of y 4 400] by simp

lemma mod_400_100_4: "y mod 400 = 0 \<Longrightarrow> y mod 100 = (0::int)" "y mod 100 = 0 \<Longrightarrow> y mod 4 = (0::int)"
proof -
  have "(100::int) dvd 400" "(4::int) dvd 100" by simp_all
  then show "y mod 400 = 0 \<Longrightarrow> y mod 100 = (0::int)" "y mod 100 = 0 \<Longrightarrow> y mod 4 = (0::int)"
    by (meson dvd_trans mod_0_imp_dvd dvd_imp_mod_0)+
qed

lemma DayFromYear_step: "DayFromYear (y + 1) = DayFromYear y + DaysInYear y"
proof -
  have a: "(y + 1 - 1969) div 4 = (y - 1969) div 4 + (if y mod 4 = 0 then 1 else 0)"
    using div_succ [of 4 "y - 1969"] mod_4_shift [of y] by (simp add: algebra_simps)
  have b: "(y + 1 - 1901) div 100 = (y - 1901) div 100 + (if y mod 100 = 0 then 1 else 0)"
    using div_succ [of 100 "y - 1901"] mod_100_shift [of y] by (simp add: algebra_simps)
  have c: "(y + 1 - 1601) div 400 = (y - 1601) div 400 + (if y mod 400 = 0 then 1 else 0)"
    using div_succ [of 400 "y - 1601"] mod_400_shift [of y] by (simp add: algebra_simps)
  show ?thesis
    unfolding DayFromYear_def DaysInYear_def a b c
    using mod_400_100_4 [of y] by auto
qed

lemma div_bounds:
  fixes x n :: int
  assumes "0 < n"
  shows "n * (x div n) \<le> x" and "x < n * (x div n) + n"
proof -
  have "x = n * (x div n) + x mod n" by simp
  moreover have "0 \<le> x mod n" "x mod n < n" using assms by simp_all
  ultimately show "n * (x div n) \<le> x" and "x < n * (x div n) + n" by linarith+
qed

lemma year_estimate:
  fixes d :: int
  defines "y \<equiv> 1970 + (400 * d) div 146097"
  shows "DayFromYear (y - 1) \<le> d" and "d < DayFromYear (y + 2)"
proof -
  define z where "z = (400 * d) div 146097"
  have y: "y = 1970 + z" by (simp add: y_def z_def)
  have z: "146097 * z \<le> 400 * d" "400 * d < 146097 * z + 146097"
    unfolding z_def using div_bounds [of 146097 "400 * d"] by simp_all
  define a b c where "a = (y - 1 - 1969) div 4" and "b = (y - 1 - 1901) div 100"
    and "c = (y - 1 - 1601) div 400"
  have a: "4 * a \<le> y - 1 - 1969"
    unfolding a_def by (rule div_bounds) simp
  have b: "y - 1 - 1901 < 100 * b + 100"
    unfolding b_def by (rule div_bounds) simp
  have c: "400 * c \<le> y - 1 - 1601"
    unfolding c_def by (rule div_bounds) simp
  have "DayFromYear (y - 1) = 365 * (y - 1 - 1970) + a - b + c"
    by (simp only: DayFromYear_def a_def b_def c_def)
  then have "400 * DayFromYear (y - 1) = 146000 * z - 146000 + 400 * a - 400 * b + 400 * c"
    by (simp add: y algebra_simps)
  moreover have "400 * a \<le> 100 * z" "4 * z - 128 < 400 * b" "400 * c \<le> z + 368"
    using a b c y by linarith+
  ultimately have "400 * DayFromYear (y - 1) \<le> 146097 * z"
    by linarith
  then have "400 * DayFromYear (y - 1) \<le> 400 * d"
    using z by linarith
  then show "DayFromYear (y - 1) \<le> d"
    by simp
  define a' b' c' where "a' = (y + 2 - 1969) div 4" and "b' = (y + 2 - 1901) div 100"
    and "c' = (y + 2 - 1601) div 400"
  have a': "y + 2 - 1969 < 4 * a' + 4"
    unfolding a'_def by (rule div_bounds) simp
  have b': "100 * b' \<le> y + 2 - 1901"
    unfolding b'_def by (rule div_bounds) simp
  have c': "y + 2 - 1601 < 400 * c' + 400"
    unfolding c'_def by (rule div_bounds) simp
  have "DayFromYear (y + 2) = 365 * (y + 2 - 1970) + a' - b' + c'"
    by (simp only: DayFromYear_def a'_def b'_def c'_def)
  then have "400 * DayFromYear (y + 2) = 146000 * z + 292000 + 400 * a' - 400 * b' + 400 * c'"
    by (simp add: y algebra_simps)
  moreover have "100 * z - 100 < 400 * a'" "400 * b' \<le> 4 * z + 284" "z - 29 < 400 * c'"
    using a' b' c' y by linarith+
  ultimately have "146097 * z + 146097 \<le> 400 * DayFromYear (y + 2)"
    by linarith
  then have "400 * d < 400 * DayFromYear (y + 2)"
    using z by linarith
  then show "d < DayFromYear (y + 2)"
    by simp
qed

lemma YearFromTime_correct:
  "DayFromYear (YearFromTime t) \<le> Day t" "Day t < DayFromYear (YearFromTime t + 1)"
proof -
  define y where "y = 1970 + (400 * Day t) div 146097"
  have e: "DayFromYear (y - 1) \<le> Day t" "Day t < DayFromYear (y + 2)"
    unfolding y_def by (rule year_estimate)+
  have s: "y + 1 + 1 = y + 2" "y - 1 + 1 = y" by simp_all
  have Y: "YearFromTime t = (if DayFromYear (y + 1) \<le> Day t then y + 1
                            else if DayFromYear y \<le> Day t then y else y - 1)"
    unfolding YearFromTime_def Let_def y_def by (rule refl)
  show "DayFromYear (YearFromTime t) \<le> Day t"
    unfolding Y using e by (simp only: split: if_split) blast 
  show "Day t < DayFromYear (YearFromTime t + 1)"
    unfolding Y using e s by (simp only: split: if_split) (metis not_le)
qed

lemma DayWithinYear_range: "0 \<le> DayWithinYear t" "DayWithinYear t < 365 + InLeapYear t"
proof -
  show "0 \<le> DayWithinYear t"
    using YearFromTime_correct(1) [of t] by (simp add: DayWithinYear_def)
  have "DaysInYear (YearFromTime t) = 365 + InLeapYear t"
    by (simp add: InLeapYear_def leapDays_def DaysInYear_def)
  then show "DayWithinYear t < 365 + InLeapYear t"
    using YearFromTime_correct(2) [of t] DayFromYear_step [of "YearFromTime t"]
    by (simp add: DayWithinYear_def)
qed

lemma InLeapYear_range: "InLeapYear t = 0 \<or> InLeapYear t = 1"
  by (simp add: InLeapYear_def leapDays_def)

lemma DateFromTime_range: "1 \<le> DateFromTime t" "DateFromTime t \<le> 31"
proof -
  have r: "0 \<le> DayWithinYear t" "DayWithinYear t < 365 + InLeapYear t"
    by (rule DayWithinYear_range)+
  show "1 \<le> DateFromTime t"
    using r InLeapYear_range [of t]
    by (auto simp: DateFromTime_def MonthFromTime_def monthStart_def Let_def)
  show "DateFromTime t \<le> 31"
    using r InLeapYear_range [of t]
    by (auto simp: DateFromTime_def MonthFromTime_def monthStart_def Let_def)
qed

lemma DayFromYear_mono:
  assumes "y \<le> y'"
  shows "DayFromYear y \<le> DayFromYear y'"
proof -
  have "DayFromYear y \<le> DayFromYear (y + int n)" for n
  proof (induction n)
    case 0
    show ?case by simp
  next
    case (Suc n)
    have "DayFromYear (y + int (Suc n)) = DayFromYear (y + int n) + DaysInYear (y + int n)"
      using DayFromYear_step [of "y + int n"] by (simp add: algebra_simps)
    moreover have "0 < DaysInYear (y + int n)"
      by (simp add: DaysInYear_def)
    ultimately show ?case using Suc by linarith
  qed
  from this [of "nat (y' - y)"] show ?thesis
    using assms by simp
qed

lemma YearFromTime_unique:
  assumes "DayFromYear y \<le> Day t" "Day t < DayFromYear (y + 1)"
  shows "YearFromTime t = y"
proof (rule ccontr)
  assume n: "YearFromTime t \<noteq> y"
  show False
  proof (cases "YearFromTime t < y")
    case True
    then have "DayFromYear (YearFromTime t + 1) \<le> DayFromYear y"
      by (intro DayFromYear_mono) simp
    then show False
      using assms(1) YearFromTime_correct(2) [of t] by linarith
  next
    case False
    then have "DayFromYear (y + 1) \<le> DayFromYear (YearFromTime t)"
      using n by (intro DayFromYear_mono) simp
    then show False
      using assms(2) YearFromTime_correct(1) [of t] by linarith
  qed
qed

text \<open>
  \<open>MakeDay\<close> is specified through a time value \<open>t\<close> in the given month of the given year
  with \<open>DateFromTime t = 1\<close>; the day computed above is the day of such a \<open>t\<close>.
\<close>

lemma MakeDay_first_of_month:
  assumes "0 \<le> m" "m \<le> 11"
  shows "YearFromTime (MakeDate (MakeDay y m 1) 0) = y"
    and "MonthFromTime (MakeDate (MakeDay y m 1) 0) = m"
    and "DateFromTime (MakeDate (MakeDay y m 1) 0) = 1"
proof -
  let ?t = "MakeDate (MakeDay y m 1) 0"
  have md: "m div 12 = 0" "m mod 12 = m"
    using assms by simp_all
  have d: "Day ?t = DayFromYear y + monthStart m (leapDays y)"
    by (simp add: MakeDate_def MakeDay_def md Day_def msPerDay_def)
  have l: "leapDays y = 0 \<or> leapDays y = 1"
    by (simp add: leapDays_def)
  have len: "DaysInYear y = 365 + leapDays y"
    by (simp add: leapDays_def DaysInYear_def)
  have ms: "0 \<le> monthStart m (leapDays y)" "monthStart m (leapDays y) < 365 + leapDays y"
    using assms l by (auto simp: monthStart_def nth_Cons' )
  have Y: "YearFromTime ?t = y"
    using ms d len DayFromYear_step [of y] by (intro YearFromTime_unique) simp_all
  have dwy: "DayWithinYear ?t = monthStart m (leapDays y)"
    by (simp add: DayWithinYear_def Y d)
  have cases: "m = 0 \<or> m = 1 \<or> m = 2 \<or> m = 3 \<or> m = 4 \<or> m = 5 \<or> m = 6 \<or> m = 7 \<or> m = 8
               \<or> m = 9 \<or> m = 10 \<or> m = 11"
    using assms by presburger
  have M: "MonthFromTime ?t = m"
    using cases l by (auto simp: MonthFromTime_def dwy InLeapYear_def Y monthStart_def)
  show "YearFromTime ?t = y" by (rule Y)
  show "MonthFromTime ?t = m" by (rule M)
  show "DateFromTime ?t = 1"
    by (simp add: DateFromTime_def dwy M InLeapYear_def Y)
qed

section \<open>The ISO string determines the time value\<close>

text \<open>
  The fields printed by \<open>toISOString\<close> have fixed widths after the year, and the fields
  determine the time value: on valid time values \<open>toISOString\<close> is injective.
\<close>

lemma length_digits [simp]: "length (digits n k) = n"
  by (induction n arbitrary: k) auto

lemma digitChar_inj: "k < 10 \<Longrightarrow> k' < 10 \<Longrightarrow> digitChar k = digitChar k' \<Longrightarrow> k = k'"
proof -
  assume a: "k < 10" "k' < 10" "digitChar k = digitChar k'"
  have d: "distinct ''0123456789''" by simp
  have l: "length ''0123456789'' = 10" by simp
  show ?thesis
    using a nth_eq_iff_index_eq [OF d, of k k'] unfolding digitChar_def l by blast
qed

lemma digits_inj:
  "k < 10 ^ n \<Longrightarrow> k' < 10 ^ n \<Longrightarrow> digits n k = digits n k' \<Longrightarrow> k = k'"
proof (induction n arbitrary: k k')
  case 0
  then show ?case by simp
next
  case (Suc n)
  have "k div 10 < 10 ^ n" "k' div 10 < 10 ^ n"
    using Suc.prems(1,2) by (simp_all add: less_mult_imp_div_less)
  moreover have "digits n (k div 10) = digits n (k' div 10)" "digitChar (k mod 10) = digitChar (k' mod 10)"
    using Suc.prems(3) by simp_all
  ultimately have "k div 10 = k' div 10" "k mod 10 = k' mod 10"
    using Suc.IH digitChar_inj [of "k mod 10" "k' mod 10"] by auto
  then show ?case
    by (metis div_mult_mod_eq)
qed

lemma time_fields:
  "t = Day t * msPerDay + MakeTime (HourFromTime t) (MinFromTime t) (SecFromTime t) (msFromTime t)"
proof -
  have 1: "t = 1000 * (t div 1000) + t mod 1000" by simp
  have 2: "t div 1000 = 60 * (t div 60000) + (t div 1000) mod 60"
    using zdiv_zmult2_eq [of 60 t 1000] mult_div_mod_eq [of 60 "t div 1000"] by simp
  have 3: "t div 60000 = 60 * (t div 3600000) + (t div 60000) mod 60"
    using zdiv_zmult2_eq [of 60 t 60000] mult_div_mod_eq [of 60 "t div 60000"] by simp
  have 4: "t div 3600000 = 24 * (t div 86400000) + (t div 3600000) mod 24"
    using zdiv_zmult2_eq [of 24 t 3600000] mult_div_mod_eq [of 24 "t div 3600000"] by simp
  show ?thesis
    unfolding Day_def MakeTime_def HourFromTime_def MinFromTime_def SecFromTime_def msFromTime_def
      msPerDay_def msPerHour_def msPerMinute_def msPerSecond_def
    using 1 2 3 4 by linarith
qed

lemma day_fields:
  "Day t = DayFromYear (YearFromTime t)
            + monthStart (MonthFromTime t) (leapDays (YearFromTime t)) + DateFromTime t - 1"
  by (simp add: DateFromTime_def DayWithinYear_def InLeapYear_def)

lemma fields_inj:
  assumes "YearFromTime a = YearFromTime b" "MonthFromTime a = MonthFromTime b"
    "DateFromTime a = DateFromTime b" "HourFromTime a = HourFromTime b"
    "MinFromTime a = MinFromTime b" "SecFromTime a = SecFromTime b" "msFromTime a = msFromTime b"
  shows "a = b"
proof -
  have "Day a = Day b"
    using assms(1-3) day_fields [of a] day_fields [of b] by simp
  then show ?thesis
    using assms(4-7) time_fields [of a] time_fields [of b] by simp
qed

lemma YearFromTime_bound:
  assumes "\<bar>t\<bar> \<le> maxTime"
  shows "\<bar>YearFromTime t\<bar> < 1000000"
proof -
  have d: "- 100000000 \<le> Day t" "Day t \<le> 100000000"
    using assms zdiv_mono1 [of t 8640000000000000 86400000]
      zdiv_mono1 [of "- 8640000000000000" t 86400000]
    unfolding Day_def msPerDay_def maxTime_def by auto
  define z where "z = (400 * Day t) div 146097"
  have z: "146097 * z \<le> 400 * Day t" "400 * Day t < 146097 * z + 146097"
    unfolding z_def using div_bounds [of 146097 "400 * Day t"] by simp_all
  have "- 300000 \<le> z" "z \<le> 300000"
    using z d by linarith+
  moreover have "YearFromTime t = 1970 + z + 1 \<or> YearFromTime t = 1970 + z \<or> YearFromTime t = 1970 + z - 1"
    unfolding YearFromTime_def Let_def z_def by (simp only: split: if_split) blast
  ultimately show ?thesis
    by linarith
qed

lemma yearString_inj:
  assumes "\<bar>y\<bar> < 1000000" "\<bar>y'\<bar> < 1000000" "yearString y = yearString y'"
  shows "y = y'"
proof -
  have l: "length (yearString x) = (if 0 \<le> x \<and> x \<le> 9999 then 4 else 7)" for x
    by (simp add: yearString_def)
  have same: "(0 \<le> y \<and> y \<le> 9999) = (0 \<le> y' \<and> y' \<le> 9999)"
    using l [of y] l [of y'] assms(3) by (auto split: if_splits)
  show ?thesis
  proof (cases "0 \<le> y \<and> y \<le> 9999")
    case True
    then have t': "0 \<le> y' \<and> y' \<le> 9999" using same by simp
    have "digits 4 (nat y) = digits 4 (nat y')"
      using assms(3) True t' by (simp add: yearString_def)
    moreover have "nat y < 10 ^ 4" "nat y' < 10 ^ 4"
      using True t' by auto
    ultimately have "nat y = nat y'"
      by (rule digits_inj [rotated 2])
    then show ?thesis using True t' by (simp add: eq_nat_nat_iff)
  next
    case False
    then have f': "\<not> (0 \<le> y' \<and> y' \<le> 9999)" using same by simp
    have e: "(if y < 0 then ''-'' else ''+'') @ digits 6 (nat \<bar>y\<bar>)
             = (if y' < 0 then ''-'' else ''+'') @ digits 6 (nat \<bar>y'\<bar>)"
      using assms(3) False f' by (simp add: yearString_def)
    then have sg: "(y < 0) = (y' < 0)" and dg: "digits 6 (nat \<bar>y\<bar>) = digits 6 (nat \<bar>y'\<bar>)"
      by (auto split: if_splits)
    have "nat \<bar>y\<bar> < 10 ^ 6" "nat \<bar>y'\<bar> < 10 ^ 6"
      using assms(1,2) by auto
    with dg have "nat \<bar>y\<bar> = nat \<bar>y'\<bar>"
      by (rule digits_inj [rotated 2])
    then have "\<bar>y\<bar> = \<bar>y'\<bar>" by (simp add: eq_nat_nat_iff)
    then show ?thesis using sg by linarith
  qed
qed

lemma nat_field_inj:
  fixes x y :: int
  assumes "0 \<le> x" "x < 10 ^ n" "0 \<le> y" "y < 10 ^ n" "digits n (nat x) = digits n (nat y)"
  shows "x = y"
proof -
  have "nat x < 10 ^ n" "nat y < 10 ^ n"
    using assms(1-4) by (simp_all add: nat_less_iff)
  then have "nat x = nat y"
    using assms(5) by (rule digits_inj)
  then show ?thesis using assms(1,3) by (simp add: eq_nat_nat_iff)
qed

lemma time_field_ranges:
  "0 \<le> HourFromTime t" "HourFromTime t < 10 ^ 2"
  "0 \<le> MinFromTime t" "MinFromTime t < 10 ^ 2"
  "0 \<le> SecFromTime t" "SecFromTime t < 10 ^ 2"
  "0 \<le> msFromTime t" "msFromTime t < 10 ^ 3"
proof -
  have "x mod 24 < 100" "x mod 60 < 100" for x :: int
    using pos_mod_bound [of 24 x] pos_mod_bound [of 60 x] by linarith+
  then show "0 \<le> HourFromTime t" "HourFromTime t < 10 ^ 2"
    "0 \<le> MinFromTime t" "MinFromTime t < 10 ^ 2"
    "0 \<le> SecFromTime t" "SecFromTime t < 10 ^ 2"
    "0 \<le> msFromTime t" "msFromTime t < 10 ^ 3"
    by (simp_all add: HourFromTime_def MinFromTime_def SecFromTime_def msFromTime_def msPerSecond_def)
qed

lemma date_field_ranges:
  "0 \<le> MonthFromTime t + 1" "MonthFromTime t + 1 < 10 ^ 2"
  "0 \<le> DateFromTime t" "DateFromTime t < 10 ^ 2"
  using MonthFromTime_range [of t] DateFromTime_range [of t] by simp_all

lemma format_inj:
  assumes "length m = length m'" "length d = length d'" "length h = length h'"
    "length mi = length mi'" "length s = length s'" "length ms = length ms'"
    and "y @ c1 # m @ c2 # d @ c3 # h @ c4 # mi @ c5 # s @ c6 # ms @ [c7]
         = y' @ c1 # m' @ c2 # d' @ c3 # h' @ c4 # mi' @ c5 # s' @ c6 # ms' @ [c7]"
  shows "y = y' \<and> m = m' \<and> d = d' \<and> h = h' \<and> mi = mi' \<and> s = s' \<and> ms = ms'"
proof -
  have split_right: "xs = ys \<and> us = vs" if "xs @ c # us = ys @ c # vs" "length (c # us) = length (c # vs)"
    for xs ys us vs :: "'a list" and c
    using that by simp
  have split_left: "xs = ys \<and> us = vs" if "xs @ c # us = ys @ c # vs" "length xs = length ys"
    for xs ys us vs :: "'a list" and c
    using that by simp
  have "length (c1 # m @ c2 # d @ c3 # h @ c4 # mi @ c5 # s @ c6 # ms @ [c7])
        = length (c1 # m' @ c2 # d' @ c3 # h' @ c4 # mi' @ c5 # s' @ c6 # ms' @ [c7])"
    using assms(1-6) by simp
  with assms(7) have y: "y = y'"
    and 1: "m @ c2 # d @ c3 # h @ c4 # mi @ c5 # s @ c6 # ms @ [c7]
            = m' @ c2 # d' @ c3 # h' @ c4 # mi' @ c5 # s' @ c6 # ms' @ [c7]"
    using split_right by blast+
  from 1 assms(1) have m: "m = m'"
    and 2: "d @ c3 # h @ c4 # mi @ c5 # s @ c6 # ms @ [c7] = d' @ c3 # h' @ c4 # mi' @ c5 # s' @ c6 # ms' @ [c7]"
    using split_left by blast+
  from 2 assms(2) have d: "d = d'"
    and 3: "h @ c4 # mi @ c5 # s @ c6 # ms @ [c7] = h' @ c4 # mi' @ c5 # s' @ c6 # ms' @ [c7]"
    using split_left by blast+
  from 3 assms(3) have h: "h = h'"
    and 4: "mi @ c5 # s @ c6 # ms @ [c7] = mi' @ c5 # s' @ c6 # ms' @ [c7]"
    using split_left by blast+
  from 4 assms(4) have mi: "mi = mi'"
    and 5: "s @ c6 # ms @ [c7] = s' @ c6 # ms' @ [c7]"
    using split_left by blast+
  from 5 assms(5) have s: "s = s'" and 6: "ms @ [c7] = ms' @ [c7]"
    using split_left by blast+
  from 6 have "ms = ms'"
    by (simp only: append_same_eq)
  with y m d h mi s show ?thesis by simp
qed

lemma toISOString_fields:
  assumes "toISOString (Some a) = toISOString (Some b)"
  shows "yearString (YearFromTime a) = yearString (YearFromTime b)
    \<and> digits 2 (nat (MonthFromTime a + 1)) = digits 2 (nat (MonthFromTime b + 1))
    \<and> digits 2 (nat (DateFromTime a)) = digits 2 (nat (DateFromTime b))
    \<and> digits 2 (nat (HourFromTime a)) = digits 2 (nat (HourFromTime b))
    \<and> digits 2 (nat (MinFromTime a)) = digits 2 (nat (MinFromTime b))
    \<and> digits 2 (nat (SecFromTime a)) = digits 2 (nat (SecFromTime b))
    \<and> digits 3 (nat (msFromTime a)) = digits 3 (nat (msFromTime b))"
proof (rule format_inj)
  show "yearString (YearFromTime a) @ CHR ''-'' # digits 2 (nat (MonthFromTime a + 1)) @ CHR ''-'' #
          digits 2 (nat (DateFromTime a)) @ CHR ''T'' # digits 2 (nat (HourFromTime a)) @ CHR '':'' #
          digits 2 (nat (MinFromTime a)) @ CHR '':'' # digits 2 (nat (SecFromTime a)) @ CHR ''.'' #
          digits 3 (nat (msFromTime a)) @ [CHR ''Z'']
        = yearString (YearFromTime b) @ CHR ''-'' # digits 2 (nat (MonthFromTime b + 1)) @ CHR ''-'' #
          digits 2 (nat (DateFromTime b)) @ CHR ''T'' # digits 2 (nat (HourFromTime b)) @ CHR '':'' #
          digits 2 (nat (MinFromTime b)) @ CHR '':'' # digits 2 (nat (SecFromTime b)) @ CHR ''.'' #
          digits 3 (nat (msFromTime b)) @ [CHR ''Z'']"
    using assms unfolding toISOString_def option.case sum.inject
    by (simp only: append_Cons append_Nil)
qed (simp_all only: length_digits)

lemma toISOString_inj:
  assumes "\<bar>a\<bar> \<le> maxTime" "\<bar>b\<bar> \<le> maxTime" "toISOString (Some a) = toISOString (Some b)"
  shows "a = b"
proof -
  note f = toISOString_fields [OF assms(3)]
  have Y: "YearFromTime a = YearFromTime b"
    using f YearFromTime_bound [OF assms(1)] YearFromTime_bound [OF assms(2)]
    by (rule_tac yearString_inj) simp_all
  have M: "MonthFromTime a + 1 = MonthFromTime b + 1"
    using f by (rule_tac nat_field_inj [OF date_field_ranges(1,2) date_field_ranges(1,2)]) simp
  have D: "DateFromTime a = DateFromTime b"
    using f by (rule_tac nat_field_inj [OF date_field_ranges(3,4) date_field_ranges(3,4)]) simp
  have h: "HourFromTime a = HourFromTime b"
    using f by (rule_tac nat_field_inj [OF time_field_ranges(1,2) time_field_ranges(1,2)]) simp
  have m: "MinFromTime a = MinFromTime b"
    using f by (rule_tac nat_field_inj [OF time_field_ranges(3,4) time_field_ranges(3,4)]) simp
  have s: "SecFromTime a = SecFromTime b"
    using f by (rule_tac nat_field_inj [OF time_field_ranges(5,6) time_field_ranges(5,6)]) simp
  have ms: "msFromTime a = msFromTime b"
    using f by (rule_tac nat_field_inj [OF time_field_ranges(7,8) time_field_ranges(7,8)]) simp
  show ?thesis
    using Y M D h m s ms by (rule_tac fields_inj) simp_all
qed

section \<open>The loops, unrolled\<close>

text \<open>
  The counted loops run 4 and 8 times. Each scraper's result is the concatenation of what
  its iterations push, in order.
\<close>

declare farmersLoop.simps [simp del] weekLoop.simps [simp del]

lemma farmersBody_append: "farmersBody tz now i events = events @ farmersBody tz now i []"
  by (simp add: farmersBody_def Let_def)

lemma weekBody_append:
  "weekBody tz now church d week events = events @ weekBody tz now church d week []"
  by (simp add: weekBody_def Let_def)

lemma communityBody_append:
  "communityBody tz now events event = events @ communityBody tz now [] event"
  by (simp add: communityBody_def Let_def)

lemma farmersLoop_unfold:
  "farmersLoop tz now 0 events =
     farmersBody tz now 3 (farmersBody tz now 2 (farmersBody tz now 1 (farmersBody tz now 0 events)))"
  by (simp add: farmersLoop.simps)

lemma farmersLoop_eq:
  "farmersLoop tz now 0 [] =
     farmersBody tz now 0 [] @ farmersBody tz now 1 [] @ farmersBody tz now 2 [] @ farmersBody tz now 3 []"
  unfolding farmersLoop_unfold
  by (metis append.assoc farmersBody_append)

lemma weekLoop_unfold:
  "weekLoop tz now c d 0 events =
     weekBody tz now c d 7 (weekBody tz now c d 6 (weekBody tz now c d 5 (weekBody tz now c d 4
       (weekBody tz now c d 3 (weekBody tz now c d 2 (weekBody tz now c d 1
         (weekBody tz now c d 0 events)))))))"
  by (simp add: weekLoop.simps)

lemma weekLoop_eq:
  "weekLoop tz now c d 0 events =
     events @ weekBody tz now c d 0 [] @ weekBody tz now c d 1 [] @ weekBody tz now c d 2 []
       @ weekBody tz now c d 3 [] @ weekBody tz now c d 4 [] @ weekBody tz now c d 5 []
       @ weekBody tz now c d 6 [] @ weekBody tz now c d 7 []"
  unfolding weekLoop_unfold
  by (metis append.assoc weekBody_append)

lemma num_gt_Some: "num_gt (getTime d) (getTime (Some now)) \<longleftrightarrow> (\<exists>t. d = Some t \<and> now < t)"
  by (cases d) (simp_all add: num_gt_def getTime_def)

lemma farmersBody_Nil:
  "farmersBody tz now i [] =
     (if num_gt (getTime (farmersDate tz now i)) (getTime (Some now))
      then [farmersMarketEvent (farmersDate tz now i)] else [])"
  by (simp add: farmersBody_def Let_def)

lemma weekBody_Nil:
  "weekBody tz now c d w [] =
     (if num_gt (getTime (weekDate tz d w)) (getTime (Some now))
      then [churchEvent c (weekDate tz d w)] else [])"
  by (simp add: weekBody_def Let_def)

lemma communityBody_Nil:
  "communityBody tz now [] ev =
     (if num_gt (getTime (communityDate tz now ev)) (getTime (Some now))
      then [communityRecord ev (communityDate tz now ev)] else [])"
  by (simp add: communityBody_def Let_def)

lemma scrapeFarmers_eq:
  "scrapeLexingtonFarmersMarket tz now =
     farmersBody tz now 0 [] @ farmersBody tz now 1 [] @ farmersBody tz now 2 [] @ farmersBody tz now 3 []"
  by (simp add: scrapeLexingtonFarmersMarket_def scrapeLexingtonFarmersMarket_body_def
        catchEmpty_def farmersLoop_eq)

lemma foldl_append_step:
  assumes "\<And>acc x. f acc x = acc @ f [] x"
  shows "foldl f acc xs = acc @ concat (map (f []) xs)"
proof (induction xs arbitrary: acc)
  case Nil
  show ?case by simp
next
  case (Cons x xs)
  have "foldl f acc (x # xs) = f acc x @ concat (map (f []) xs)"
    by (simp add: Cons.IH)
  also have "f acc x = acc @ f [] x"
    by (rule assms)
  finally show ?case by simp
qed

lemma churchBody_eq:
  "churchBody tz now events c = events @ churchBody tz now [] c"
  by (simp add: churchBody_def weekLoop_eq [of tz now c _ events] weekLoop_eq [of tz now c _ "[]"])

lemma scrapeChurch_eq:
  "scrapeChurchEvents tz now = concat (map (churchBody tz now []) churches)"
  using foldl_append_step [of "churchBody tz now" "[]" churches, OF churchBody_eq]
  by (simp add: scrapeChurchEvents_def scrapeChurchEvents_body_def catchEmpty_def)

lemma scrapeCommunity_eq:
  "scrapeYardSalesAndCommunityEvents tz now = concat (map (communityBody tz now []) communityEvents)"
  using foldl_append_step [of "communityBody tz now" "[]" communityEvents, OF communityBody_append]
  by (simp add: scrapeYardSalesAndCommunityEvents_def scrapeYardSalesAndCommunityEvents_body_def
        catchEmpty_def)

lemma churchBody_expand:
  "churchBody tz now [] c =
     weekBody tz now c (churchDate tz now c) 0 [] @ weekBody tz now c (churchDate tz now c) 1 []
     @ weekBody tz now c (churchDate tz now c) 2 [] @ weekBody tz now c (churchDate tz now c) 3 []
     @ weekBody tz now c (churchDate tz now c) 4 [] @ weekBody tz now c (churchDate tz now c) 5 []
     @ weekBody tz now c (churchDate tz now c) 6 [] @ weekBody tz now c (churchDate tz now c) 7 []"
  by (simp add: churchBody_def weekLoop_eq)

lemma scrapeChurch_two:
  "scrapeChurchEvents tz now = churchBody tz now [] (churches ! 0) @ churchBody tz now [] (churches ! 1)"
  by (simp add: scrapeChurch_eq churches_def)

lemma singleton_filter: "(if P i then [f i] else []) = map f (filter P [i])"
  by simp

lemma map_filter_append: "map f (filter P xs) @ map f (filter P ys) = map f (filter P (xs @ ys))"
  by simp

lemma farmers_block:
  "scrapeLexingtonFarmersMarket tz now =
     map (\<lambda>i. farmersMarketEvent (farmersDate tz now i))
       (filter (\<lambda>i. num_gt (getTime (farmersDate tz now i)) (getTime (Some now))) [0, 1, 2, 3])"
  unfolding scrapeFarmers_eq farmersBody_Nil singleton_filter map_filter_append
  by simp

lemma church_block:
  "churchBody tz now [] c =
     map (\<lambda>w. churchEvent c (weekDate tz (churchDate tz now c) w))
       (filter (\<lambda>w. num_gt (getTime (weekDate tz (churchDate tz now c) w)) (getTime (Some now)))
          [0, 1, 2, 3, 4, 5, 6, 7])"
  unfolding churchBody_expand weekBody_Nil singleton_filter map_filter_append
  by simp

section \<open>The scrapers emit future events only\<close>

text \<open>
  A record is pushed under the test \<open>getTime() > now.getTime()\<close> only, which an Invalid
  Date fails.
\<close>

lemma farmersBody_future:
  "e \<in> set (farmersBody tz now i []) \<Longrightarrow> \<exists>t. startTime e = Some t \<and> now < t"
  by (auto simp: farmersBody_Nil num_gt_Some farmersMarketEvent_def split: if_splits)

lemma weekBody_future:
  "e \<in> set (weekBody tz now c d w []) \<Longrightarrow> \<exists>t. startTime e = Some t \<and> now < t"
  by (auto simp: weekBody_Nil num_gt_Some churchEvent_def split: if_splits)

lemma communityBody_future:
  "e \<in> set (communityBody tz now [] ev) \<Longrightarrow> \<exists>t. startTime e = Some t \<and> now < t"
  by (auto simp: communityBody_Nil num_gt_Some communityRecord_def split: if_splits)

lemma churchBody_future:
  "e \<in> set (churchBody tz now [] c) \<Longrightarrow> \<exists>t. startTime e = Some t \<and> now < t"
  unfolding churchBody_def weekLoop_eq using weekBody_future by fastforce

lemma farmers_future:
  "e \<in> set (scrapeLexingtonFarmersMarket tz now) \<Longrightarrow> \<exists>t. startTime e = Some t \<and> now < t"
  unfolding scrapeFarmers_eq using farmersBody_future by fastforce

lemma church_future:
  "e \<in> set (scrapeChurchEvents tz now) \<Longrightarrow> \<exists>t. startTime e = Some t \<and> now < t"
  unfolding scrapeChurch_eq using churchBody_future by fastforce

lemma community_future:
  "e \<in> set (scrapeYardSalesAndCommunityEvents tz now) \<Longrightarrow> \<exists>t. startTime e = Some t \<and> now < t"
  unfolding scrapeCommunity_eq using communityBody_future by fastforce

lemma scrapers_valid_at:
  "\<forall>e \<in> set (scrapeLexingtonFarmersMarket tz now1 @ scrapeChurchEvents tz now2
               @ scrapeYardSalesAndCommunityEvents tz now3). startTime e \<noteq> None"
  using farmers_future [of _ tz now1] church_future [of _ tz now2] community_future [of _ tz now3]
  by fastforce

lemma scrapers_valid:
  "\<forall>e \<in> set (scrapeLexingtonFarmersMarket tz now @ scrapeChurchEvents tz now
               @ scrapeYardSalesAndCommunityEvents tz now). startTime e \<noteq> None"
  by (rule scrapers_valid_at)

section \<open>Bounds on the scrapers' output, and the titles\<close>

text \<open>
  Every iteration pushes at most one record, with the title of its template.
\<close>

lemma farmersBody_length: "length (farmersBody tz now i []) \<le> 1"
  by (simp add: farmersBody_Nil)

lemma weekBody_length: "length (weekBody tz now c d w []) \<le> 1"
  by (simp add: weekBody_Nil)

lemma churchBody_length: "length (churchBody tz now [] c) \<le> 8"
proof -
  have "length (weekBody tz now c (churchDate tz now c) w []) \<le> 1" for w
    by (rule weekBody_length)
  from this [of 0] this [of 1] this [of 2] this [of 3] this [of 4] this [of 5] this [of 6] this [of 7]
  show ?thesis
    unfolding churchBody_expand length_append by linarith
qed

lemma churchBody_title:
  "e \<in> set (churchBody tz now [] c) \<Longrightarrow> title e = ch_name c @ '': '' @ ch_event c"
  unfolding churchBody_expand
  by (auto simp: weekBody_Nil churchEvent_def split: if_splits)

lemma farmers_title:
  "e \<in> set (scrapeLexingtonFarmersMarket tz now) \<Longrightarrow> title e = ''Downtown Farmers Market''"
  unfolding farmers_block by (auto simp: farmersMarketEvent_def)

lemma community_title:
  "e \<in> set (communityBody tz now [] ev) \<Longrightarrow> title e = ce_title ev"
  by (auto simp: communityBody_Nil communityRecord_def split: if_splits)

lemma church_valid_title:
  "e \<in> set (churchBody tz now [] c) \<Longrightarrow> startTime e \<noteq> None \<and> title e = ch_name c @ '': '' @ ch_event c"
  using churchBody_future [of e tz now c] churchBody_title [of e tz now c] by auto

lemma farmers_valid_title:
  "e \<in> set (scrapeLexingtonFarmersMarket tz now) \<Longrightarrow>
     startTime e \<noteq> None \<and> title e = ''Downtown Farmers Market''"
  using farmers_future [of e tz now] farmers_title [of e tz now] by auto

lemma community_valid_title:
  "e \<in> set (communityBody tz now [] ev) \<Longrightarrow> startTime e \<noteq> None \<and> title e = ce_title ev"
  using communityBody_future [of e tz now ev] community_title [of e tz now ev] by auto

section \<open>The dates the scrapers compute\<close>

text \<open>
  The candidate dates in closed form: each is the outcome of three conversions between
  local time and UTC, any of which may leave the range of time values.
\<close>

lemma saturday_rem: "js_rem (6 - WeekDay t + 7) 7 = 6 - WeekDay t"
proof -
  have w: "0 \<le> WeekDay t" "WeekDay t \<le> 6"
    using WeekDay_range [of t] by auto
  then have "js_rem (6 - WeekDay t + 7) 7 = (6 - WeekDay t + 7) mod 7"
    by (intro js_rem_nonneg) auto
  also have "\<dots> = 6 - WeekDay t"
    using w by presburger
  finally show ?thesis .
qed

lemma farmersDate_eq:
  "farmersDate tz now i =
     setHours tz (setDate tz (Some now)
       (do { d \<leftarrow> getDate tz (Some now); Some (d + (6 - WeekDay (LocalTime tz now) + i * 7)) })) 8 0 0 0"
proof -
  have "do { d \<leftarrow> getDate tz (Some now); w \<leftarrow> getDay tz (Some now);
             Some (d + js_rem (6 - w + 7) 7 + i * 7) }
        = do { d \<leftarrow> getDate tz (Some now); Some (d + (6 - WeekDay (LocalTime tz now) + i * 7)) }"
    unfolding getDay_def getDate_def option.map bind.bind_lunit saturday_rem
    by (simp only: add.assoc)
  then show ?thesis
    unfolding farmersDate_def Let_def by simp
qed

lemma farmersDate_closed:
  "farmersDate tz now i =
     (case TimeClip (UTC tz (LocalTime tz now + (6 - WeekDay (LocalTime tz now) + i * 7) * msPerDay)) of
        None \<Rightarrow> None
      | Some u \<Rightarrow> TimeClip (UTC tz (MakeDate (Day (LocalTime tz u)) (MakeTime 8 0 0 0))))"
  unfolding farmersDate_eq shift_then_hours_gen ..

lemma farmersDate_Some:
  assumes "farmersDate tz now i = Some a"
  shows "a = UTC tz (MakeDate (Day (LocalTime tz (UTC tz (LocalTime tz now
                 + (6 - WeekDay (LocalTime tz now) + i * 7) * msPerDay)))) (MakeTime 8 0 0 0))"
    and "\<bar>a\<bar> \<le> maxTime"
  using shift_then_hours_Some(1,2) [OF assms [unfolded farmersDate_eq]] by blast+

lemma farmersDate_increasing:
  assumes "i < j" "farmersDate tz now i = Some a" "farmersDate tz now j = Some b"
  shows "a < b"
proof -
  let ?w = "WeekDay (LocalTime tz now)"
  have "(i + 1) * (7 * msPerDay) \<le> j * (7 * msPerDay)"
    using assms(1) by (intro mult_right_mono) (simp_all add: msPerDay_def)
  then have "LocalTime tz now + (6 - ?w + i * 7) * msPerDay + 7 * msPerDay
        \<le> LocalTime tz now + (6 - ?w + j * 7) * msPerDay"
    by (simp add: algebra_simps)
  then show ?thesis
    unfolding farmersDate_Some(1) [OF assms(2)] farmersDate_Some(1) [OF assms(3)]
    by (rule hours_on_day_increasing)
qed

lemma farmersDate_later:
  assumes "1 \<le> i" "farmersDate tz now i = Some a"
  shows "now < a"
proof -
  have "5 \<le> 6 - WeekDay (LocalTime tz now) + i * 7"
    using WeekDay_range [of "LocalTime tz now"] assms(1) by linarith
  then show ?thesis
    unfolding farmersDate_Some(1) [OF assms(2)] by (intro later_far) simp_all
qed

lemma weekDate_Some:
  assumes "weekDate tz (Some e) w = Some a"
  shows "a = UTC tz (LocalTime tz e + w * 7 * msPerDay)" and "\<bar>a\<bar> \<le> maxTime"
proof -
  have "TimeClip (UTC tz (LocalTime tz e + w * 7 * msPerDay)) = Some a"
    using assms unfolding weekDate_def Let_def setDate_getDate_plus .
  from TimeClip_Some [OF this]
  show "a = UTC tz (LocalTime tz e + w * 7 * msPerDay)" and "\<bar>a\<bar> \<le> maxTime"
    by blast+
qed

lemma weekDate_increasing:
  assumes "w < w'" "weekDate tz (Some e) w = Some a" "weekDate tz (Some e) w' = Some b"
  shows "a < b"
proof -
  have "(w + 1) * (7 * msPerDay) \<le> w' * (7 * msPerDay)"
    using assms(1) by (intro mult_right_mono) (simp_all add: msPerDay_def)
  then have "LocalTime tz e + w * 7 * msPerDay + 2 * msPerDay \<le> LocalTime tz e + w' * 7 * msPerDay"
    by (simp add: algebra_simps msPerDay_def)
  then show ?thesis
    unfolding weekDate_Some(1) [OF assms(2)] weekDate_Some(1) [OF assms(3)]
    by (rule UTC_increasing)
qed

lemma weekDate_None: "weekDate tz None w = None"
  by (simp add: weekDate_def setDate_def)

lemma communityDate_closed:
  "communityDate tz now ev =
     (case TimeClip (UTC tz (LocalTime tz now + ce_date ev * msPerDay)) of
        None \<Rightarrow> None
      | Some u \<Rightarrow> TimeClip (UTC tz (MakeDate (Day (LocalTime tz u)) (MakeTime (ce_time ev) 0 0 0))))"
  unfolding communityDate_def Let_def shift_then_hours_gen ..

lemma communityDate_Some:
  assumes "communityDate tz now ev = Some a"
  shows "a = UTC tz (MakeDate (Day (LocalTime tz (UTC tz (LocalTime tz now + ce_date ev * msPerDay))))
                       (MakeTime (ce_time ev) 0 0 0))"
  using shift_then_hours_Some(1) [OF assms [unfolded communityDate_def Let_def]] .

text \<open>
  Away from the two ends of the range of time values every candidate is a valid date,
  whatever the zone does: the conversions move a time by less than a day each.
\<close>

lemma shift_then_hours_valid:
  assumes "5 * msPerDay - maxTime \<le> now" "now + 32 * msPerDay \<le> maxTime"
    and "0 \<le> k" "k \<le> 27" "0 \<le> h" "h \<le> 23"
  shows "setHours tz (setDate tz (Some now) (do { d \<leftarrow> getDate tz (Some now); Some (d + k) })) h 0 0 0
         \<noteq> None"
proof -
  let ?x = "LocalTime tz now + k * msPerDay"
  let ?u = "UTC tz ?x"
  let ?l = "LocalTime tz ?u"
  let ?y = "MakeDate (Day ?l) (MakeTime h 0 0 0)"
  have k: "0 \<le> k * msPerDay" "k * msPerDay \<le> 27 * msPerDay"
    using assms(3,4) by (simp_all add: msPerDay_def)
  have h: "0 \<le> MakeTime h 0 0 0" "MakeTime h 0 0 0 < msPerDay"
    using assms(5,6) by (simp_all add: MakeTime_def msPerHour_def msPerDay_def)
  have u: "now - 2 * msPerDay < ?u" "?u < now + 29 * msPerDay"
    using LocalTime_bounds [of now tz] UTC_bounds [of ?x tz] k by linarith+
  then have "\<bar>?u\<bar> \<le> maxTime"
    using assms(1,2) unfolding msPerDay_def by linarith
  then have c1: "TimeClip ?u = Some ?u"
    by (simp add: TimeClip_def)
  have "?u - 2 * msPerDay < ?y" "?y < ?u + 2 * msPerDay"
    using LocalTime_bounds [of ?u tz] Day_bounds [of ?l] h by (simp_all add: MakeDate_def)
  then have "now - 5 * msPerDay < UTC tz ?y" "UTC tz ?y < now + 32 * msPerDay"
    using u UTC_bounds [of ?y tz] by linarith+
  then have "\<bar>UTC tz ?y\<bar> \<le> maxTime"
    using assms(1,2) unfolding msPerDay_def by linarith
  then have c2: "TimeClip (UTC tz ?y) = Some (UTC tz ?y)"
    by (simp add: TimeClip_def)
  show ?thesis
    unfolding shift_then_hours_gen c1 using c2 by simp
qed

lemma farmersDate_valid:
  assumes "5 * msPerDay - maxTime \<le> now" "now + 32 * msPerDay \<le> maxTime" "0 \<le> i" "i \<le> 3"
  shows "farmersDate tz now i \<noteq> None"
proof -
  have "0 \<le> 6 - WeekDay (LocalTime tz now) + i * 7" "6 - WeekDay (LocalTime tz now) + i * 7 \<le> 27"
    using WeekDay_range [of "LocalTime tz now"] assms(3,4) by auto
  then show ?thesis
    unfolding farmersDate_eq using assms(1,2) by (intro shift_then_hours_valid) simp_all
qed

lemma farmersDate_valid_all:
  assumes "5 * msPerDay - maxTime \<le> now" "now + 32 * msPerDay \<le> maxTime"
  shows "\<forall>i \<in> {0, 1, 2, 3}. farmersDate tz now i \<noteq> None"
  using farmersDate_valid [OF assms, of 0 tz] farmersDate_valid [OF assms, of 1 tz]
    farmersDate_valid [OF assms, of 2 tz] farmersDate_valid [OF assms, of 3 tz]
  by simp

lemma communityDate_valid:
  assumes "5 * msPerDay - maxTime \<le> now" "now + 32 * msPerDay \<le> maxTime"
    and "0 \<le> ce_date ev" "ce_date ev \<le> 27" "0 \<le> ce_time ev" "ce_time ev \<le> 23"
  shows "communityDate tz now ev \<noteq> None"
  unfolding communityDate_def Let_def using assms by (rule shift_then_hours_valid)

text \<open>What an iteration pushes, by the candidate's value.\<close>

lemma farmersBody_emits:
  "farmersDate tz now i = Some a \<Longrightarrow> now < a \<Longrightarrow>
     farmersBody tz now i [] = [farmersMarketEvent (Some a)]"
  by (simp add: farmersBody_Nil num_gt_Some)

lemma farmersBody_skips:
  "farmersDate tz now i = Some a \<Longrightarrow> \<not> now < a \<Longrightarrow> farmersBody tz now i [] = []"
  by (simp add: farmersBody_Nil num_gt_Some)

lemma farmersBody_invalid:
  "farmersDate tz now i = None \<Longrightarrow> farmersBody tz now i [] = []"
  by (simp add: farmersBody_Nil num_gt_Some)

text \<open>The first candidate, where the zone is regular on the way to it.\<close>

lemma first_candidate_saturday:
  assumes "WeekDay (LocalTime tz now) = 6" "firstCandidateRegular tz now"
    and "farmersDate tz now 0 = Some a"
  shows "now < a \<longleftrightarrow> TimeWithinDay (LocalTime tz now) < 8 * msPerHour"
proof -
  let ?l = "LocalTime tz now"
  let ?y = "MakeDate (Day ?l) (MakeTime 8 0 0 0)"
  let ?c = "LocalTZA tz ?y False - LocalTZA tz now True"
  have r: "Day (LocalTime tz (UTC tz ?l)) = Day ?l"
      "?c = 0 \<or> \<bar>?c\<bar> < \<bar>MakeTime 8 0 0 0 - TimeWithinDay ?l\<bar>"
    using assms(1,2) by (simp_all add: firstCandidateRegular_def Let_def staysOnDay_def)
  have "a = UTC tz ?y"
    using farmersDate_Some(1) [OF assms(3)] assms(1) r(1) by simp
  then have a: "a = ?y - LocalTZA tz now True - ?c"
    by (simp add: UTC_def)
  have n: "now = ?l - LocalTZA tz now True"
    by (simp add: LocalTime_def)
  have l: "?l = Day ?l * msPerDay + TimeWithinDay ?l"
    by (rule Day_TimeWithinDay)
  have y: "?y = Day ?l * msPerDay + 8 * msPerHour" "MakeTime 8 0 0 0 = 8 * msPerHour"
    by (simp_all add: MakeDate_def MakeTime_def)
  show ?thesis
    using a n l y r(2) by linarith
qed

lemma first_candidate_other:
  assumes "WeekDay (LocalTime tz now) \<noteq> 6" "firstCandidateRegular tz now"
    and "farmersDate tz now 0 = Some a"
  shows "now < a"
proof -
  let ?l = "LocalTime tz now"
  let ?o = "LocalTZA tz now True"
  let ?x = "?l + (6 - WeekDay ?l) * msPerDay"
  let ?u = "UTC tz ?x"
  let ?y = "MakeDate (Day (LocalTime tz ?u)) (MakeTime 8 0 0 0)"
  have r: "LocalTZA tz ?x False - LocalTZA tz ?u True \<le> 4 * msPerHour"
      "LocalTZA tz ?y False - ?o \<le> 4 * msPerHour"
    using assms(1,2) by (simp_all add: firstCandidateRegular_def Let_def)
  have "1 \<le> 6 - WeekDay ?l"
    using WeekDay_range [of ?l] assms(1) by linarith
  then have k: "msPerDay \<le> (6 - WeekDay ?l) * msPerDay"
    by (simp add: msPerDay_def)
  have a: "a = UTC tz ?y"
    using farmersDate_Some(1) [OF assms(3)] by simp
  have "LocalTime tz ?u = ?x - LocalTZA tz ?x False + LocalTZA tz ?u True"
    by (simp add: LocalTime_def UTC_def)
  then have "?l + msPerDay - 4 * msPerHour \<le> LocalTime tz ?u"
    using r(1) k by linarith
  then have "?l - 4 * msPerHour < Day (LocalTime tz ?u) * msPerDay"
    using Day_bounds [of "LocalTime tz ?u"] by linarith
  then have "?l + 4 * msPerHour < ?y"
    by (simp add: MakeDate_def MakeTime_def)
  moreover have "UTC tz ?y = ?y - LocalTZA tz ?y False" "now = ?l - ?o"
    by (simp_all add: UTC_def LocalTime_def)
  ultimately have "now < UTC tz ?y"
    using r(2) by linarith
  then show ?thesis
    unfolding a .
qed

text \<open>Valid candidates a week or more ahead are pushed; only the first one can fail the test.\<close>

lemma farmers_first_only:
  assumes "\<forall>i \<in> {0, 1, 2, 3}. farmersDate tz now i \<noteq> None"
  shows "scrapeLexingtonFarmersMarket tz now =
           map (\<lambda>i. farmersMarketEvent (farmersDate tz now i))
             (if num_gt (getTime (farmersDate tz now 0)) (getTime (Some now))
              then [0, 1, 2, 3] else [1, 2, 3])"
proof -
  obtain a1 a2 a3 where d: "farmersDate tz now 1 = Some a1"
      "farmersDate tz now 2 = Some a2" "farmersDate tz now 3 = Some a3"
    using assms by auto
  have l: "now < a1" "now < a2" "now < a3"
    using farmersDate_later [OF _ d(1)] farmersDate_later [OF _ d(2)] farmersDate_later [OF _ d(3)]
    by simp_all
  have b: "farmersBody tz now 1 [] = [farmersMarketEvent (Some a1)]"
      "farmersBody tz now 2 [] = [farmersMarketEvent (Some a2)]"
      "farmersBody tz now 3 [] = [farmersMarketEvent (Some a3)]"
    using d l by (simp_all add: farmersBody_emits)
  show ?thesis
    using b d by (simp add: scrapeFarmers_eq farmersBody_Nil [of tz now 0])
qed

lemma farmers_regular:
  assumes valid: "\<forall>i \<in> {0, 1, 2, 3}. farmersDate tz now i \<noteq> None"
    and regular: "firstCandidateRegular tz now"
  shows "scrapeLexingtonFarmersMarket tz now =
           map (\<lambda>i. farmersMarketEvent (farmersDate tz now i))
             (if WeekDay (LocalTime tz now) = 6 \<and> 8 * msPerHour \<le> TimeWithinDay (LocalTime tz now)
              then [1, 2, 3] else [0, 1, 2, 3])"
proof -
  obtain a0 where d: "farmersDate tz now 0 = Some a0"
    using valid by auto
  have "now < a0 \<longleftrightarrow> \<not> (WeekDay (LocalTime tz now) = 6
                         \<and> 8 * msPerHour \<le> TimeWithinDay (LocalTime tz now))"
  proof (cases "WeekDay (LocalTime tz now) = 6")
    case True
    then show ?thesis
      using first_candidate_saturday [OF True regular d] by auto
  next
    case False
    then show ?thesis
      using first_candidate_other [OF False regular d] by simp
  qed
  then show ?thesis
    unfolding farmers_first_only [OF valid] by (simp add: d num_gt_Some)
qed

section \<open>The insertion-ordered Map\<close>

text \<open>
  The keys of \<open>new_Map\<close> are the keys of the entries at their first occurrence; the value
  of a key is the last value given for it.
\<close>

lemma keys_Map_set:
  "map fst (Map_set k v m) = (if k \<in> fst ` set m then map fst m else map fst m @ [k])"
  by (induction m) (force simp: image_iff)+

lemma map_of_Map_set: "map_of (Map_set k v m) = (map_of m)(k \<mapsto> v)"
  by (induction m) auto

lemma set_Map_set: "set (Map_set k v m) \<subseteq> insert (k, v) (set m)"
  by (induction m) (auto split: if_splits)

lemma keys_foldl:
  "map fst (foldl (\<lambda>m (k, v). Map_set k v m) m es)
     = map fst m @ filter (\<lambda>k. k \<notin> fst ` set m) (keepFirst (map fst es))"
proof (induction es arbitrary: m)
  case Nil
  show ?case by simp
next
  case (Cons e es)
  obtain k v where e: "e = (k, v)" by (cases e)
  have "set (map fst (Map_set k v m)) = insert k (set (map fst m))"
    by (auto simp: keys_Map_set)
  then have set_keys: "fst ` set (Map_set k v m) = insert k (fst ` set m)"
    by simp
  show ?case
  proof (cases "k \<in> fst ` set m")
    case True
    have "filter (\<lambda>k. k \<notin> fst ` set m) (removeAll k xs) = filter (\<lambda>k. k \<notin> fst ` set m) xs" for xs
      using True by (induction xs) auto
    then show ?thesis
      using True Cons.IH [of "Map_set k v m"] by (simp add: e keys_Map_set set_keys insert_absorb)
  next
    case False
    have "filter (\<lambda>x. x \<noteq> k \<and> x \<notin> fst ` set m) xs = filter (\<lambda>k. k \<notin> fst ` set m) (removeAll k xs)" for xs
      by (induction xs) auto
    then show ?thesis
      using False Cons.IH [of "Map_set k v m"] by (simp add: e keys_Map_set set_keys)
  qed
qed

lemma keys_new_Map: "map fst (new_Map es) = keepFirst (map fst es)"
  by (simp add: new_Map_def keys_foldl)

lemma set_keepFirst: "set (keepFirst xs) = set xs"
  by (induction xs) auto

lemma distinct_keepFirst: "distinct (keepFirst xs)"
  by (induction xs) (auto simp: distinct_removeAll)

lemma distinct_keys_new_Map: "distinct (map fst (new_Map es))"
  by (simp add: keys_new_Map distinct_keepFirst)

lemma map_of_foldl:
  "map_of (foldl (\<lambda>m (k, v). Map_set k v m) m es) = map_of m ++ map_of (rev es)"
proof (induction es arbitrary: m)
  case Nil
  show ?case by simp
next
  case (Cons e es)
  obtain k v where e: "e = (k, v)" by (cases e)
  have "map_of (foldl (\<lambda>m (k, v). Map_set k v m) m (e # es))
          = (map_of m)(k \<mapsto> v) ++ map_of (rev es)"
    by (simp add: e Cons.IH map_of_Map_set del: fun_upd_apply)
  also have "\<dots> = map_of m ++ map_of (rev (e # es))"
    by (rule ext) (simp add: e map_add_def split: option.splits)
  finally show ?case .
qed

lemma map_of_new_Map: "map_of (new_Map es) = map_of (rev es)"
  by (simp add: new_Map_def map_of_foldl)

lemma set_new_Map: "set (new_Map es) \<subseteq> set es"
proof -
  have "set (foldl (\<lambda>m (k, v). Map_set k v m) m es) \<subseteq> set m \<union> set es" for m
  proof (induction es arbitrary: m)
    case Nil show ?case by simp
  next
    case (Cons e es)
    obtain k v where e: "e = (k, v)" by (cases e)
    show ?case using Cons.IH [of "Map_set k v m"] set_Map_set [of k v m] by (auto simp: e)
  qed
  from this [of "[]"] show ?thesis by (simp add: new_Map_def)
qed

lemma filter_key_new_Map:
  assumes "k \<in> fst ` set es"
  shows "filter (\<lambda>p. fst p = k) (new_Map es) = [(k, snd (last (filter (\<lambda>p. fst p = k) es)))]"
proof -
  have m: "map_of (rev es) k = Some (snd (last (filter (\<lambda>p. fst p = k) es)))"
    using assms
  proof (induction es rule: rev_induct)
    case Nil
    then show ?case by simp
  next
    case (snoc p es)
    then show ?case by (cases p) auto
  qed
  have "distinct (map fst m) \<Longrightarrow> map_of m k = Some v \<Longrightarrow> filter (\<lambda>p. fst p = k) m = [(k, v)]"
    for m :: "('a \<times> 'b) list" and v
  proof (induction m)
    case Nil
    then show ?case by simp
  next
    case (Cons p m)
    show ?case
    proof (cases "fst p = k")
      case True
      then have "filter (\<lambda>p. fst p = k) m = []"
        using Cons.prems(1) by (force simp: filter_empty_conv image_iff)
      then show ?thesis
        using True Cons.prems(2) by (cases p) auto
    next
      case False
      then show ?thesis
        using Cons by (cases p) auto
    qed
  qed
  from this [OF distinct_keys_new_Map, of es] m show ?thesis
    by (simp add: map_of_new_Map)
qed

lemma Map_set_new_key: "k \<notin> fst ` set m \<Longrightarrow> Map_set k v m = m @ [(k, v)]"
  by (induction m) auto

lemma foldl_Map_set_distinct:
  "distinct (map fst (m @ es)) \<Longrightarrow> foldl (\<lambda>m (k, v). Map_set k v m) m es = m @ es"
proof (induction es arbitrary: m)
  case Nil
  show ?case by simp
next
  case (Cons e es)
  obtain k v where e: "e = (k, v)" by (cases e)
  have "k \<notin> fst ` set m"
    using Cons.prems by (auto simp: e)
  then have "Map_set k v m = m @ [(k, v)]"
    by (rule Map_set_new_key)
  moreover have "distinct (map fst ((m @ [(k, v)]) @ es))"
    using Cons.prems by (simp add: e)
  ultimately show ?case
    using Cons.IH [of "m @ [(k, v)]"] by (simp add: e)
qed

lemma new_Map_distinct: "distinct (map fst es) \<Longrightarrow> new_Map es = es"
  using foldl_Map_set_distinct [of "[]" es] by (simp add: new_Map_def)

lemma keepFirst_map_inj:
  assumes "inj f"
  shows "keepFirst (map f xs) = map f (keepFirst xs)"
proof (induction xs)
  case Nil
  show ?case by simp
next
  case (Cons x xs)
  have "removeAll (f x) (map f ys) = map f (removeAll x ys)" for ys
    using assms by (induction ys) (auto dest: injD)
  with Cons show ?case by simp
qed

section \<open>Keys and deduplication\<close>

text \<open>
  The key computation raises exactly on an Invalid Date. When it does not raise,
  \<open>uniqueEvents\<close> holds one record per key.
\<close>

lemma eventKey_Inr: "eventKey e = Inr k \<Longrightarrow> startTime e \<noteq> None"
  by (auto simp: eventKey_def toISOString_def split: option.splits sum.splits)

lemma eventKey_valid: "startTime e \<noteq> None \<Longrightarrow> \<exists>k. eventKey e = Inr k"
  by (auto simp: eventKey_def toISOString_def split: option.splits sum.splits)

lemma mapEntries_Inr:
  "mapEntries xs = Inr entries \<Longrightarrow> entries = map (\<lambda>e. (projr (eventKey e), e)) xs \<and> (\<forall>e \<in> set xs. startTime e \<noteq> None)"
proof (induction xs arbitrary: entries)
  case Nil
  then show ?case by simp
next
  case (Cons x xs)
  then show ?case
    by (auto split: sum.splits dest: eventKey_Inr)
qed

lemma mapEntries_valid:
  "\<forall>e \<in> set xs. startTime e \<noteq> None \<Longrightarrow> \<exists>entries. mapEntries xs = Inr entries"
proof (induction xs)
  case Nil
  then show ?case by simp
next
  case (Cons x xs)
  then obtain k entries where "eventKey x = Inr k" "mapEntries xs = Inr entries"
    using eventKey_valid [of x] by auto
  then show ?case by simp
qed

text \<open>What the entries of the map look like when no key computation raised.\<close>

lemma mapEntries_keys:
  assumes "mapEntries xs = Inr entries"
  shows "map snd entries = xs" and "map (\<lambda>p. Inr (fst p)) entries = map eventKey xs"
    and "\<forall>p \<in> set entries. eventKey (snd p) = Inr (fst p)"
  using assms
proof (induction xs arbitrary: entries)
  case Nil
  { case 1 then show ?case by simp }
  { case 2 then show ?case by simp }
  { case 3 then show ?case by simp }
next
  case (Cons x xs)
  { case 1 then show ?case using Cons.IH(1) by (auto split: sum.splits) }
  { case 2 then show ?case using Cons.IH(2) by (auto split: sum.splits) }
  { case 3 then show ?case using Cons.IH(3) by (auto split: sum.splits) }
qed

lemma mapEntries_invalid:
  assumes "\<exists>e \<in> set xs. startTime e = None"
  shows "mapEntries xs = Inl RangeError"
  using assms
proof (induction xs)
  case Nil
  then show ?case by simp
next
  case (Cons x xs)
  show ?case
  proof (cases "startTime x")
    case None
    then show ?thesis by (simp add: eventKey_def toISOString_def)
  next
    case (Some a)
    then have "\<exists>e \<in> set xs. startTime e = None"
      using Cons.prems by auto
    then have "mapEntries xs = Inl RangeError"
      by (rule Cons.IH)
    then show ?thesis
      using Some by (simp add: eventKey_def toISOString_def)
  qed
qed

lemma uniqueEvents_Inr:
  assumes "uniqueEvents xs = Inr u"
  obtains entries where "mapEntries xs = Inr entries" "u = map snd (new_Map entries)"
  using assms by (auto simp: uniqueEvents_def Map_values_def split: sum.splits)

lemma uniqueEvents_keys:
  assumes "uniqueEvents xs = Inr u"
  shows "map eventKey u = keepFirst (map eventKey xs)"
proof -
  obtain entries where en: "mapEntries xs = Inr entries" and u: "u = map snd (new_Map entries)"
    using assms by (rule uniqueEvents_Inr)
  have "\<forall>p \<in> set (new_Map entries). eventKey (snd p) = Inr (fst p)"
    using mapEntries_keys(3) [OF en] set_new_Map [of entries] by blast
  then have "map eventKey u = map Inr (map fst (new_Map entries))"
    by (simp add: u)
  also have "\<dots> = map Inr (keepFirst (map fst entries))"
    by (simp add: keys_new_Map)
  also have "\<dots> = keepFirst (map Inr (map fst entries))"
    by (rule keepFirst_map_inj [OF inj_Inr, symmetric])
  also have "map Inr (map fst entries) = map eventKey xs"
    using mapEntries_keys(2) [OF en] by (simp add: comp_def)
  finally show ?thesis .
qed

lemma uniqueEvents_subset:
  assumes "uniqueEvents xs = Inr u"
  shows "set u \<subseteq> set xs"
proof -
  obtain entries where en: "mapEntries xs = Inr entries" and u: "u = map snd (new_Map entries)"
    using assms by (rule uniqueEvents_Inr)
  have "set u \<subseteq> snd ` set entries"
    using set_new_Map [of entries] by (auto simp: u)
  also have "\<dots> = set xs"
    using mapEntries_keys(1) [OF en] by (metis set_map)
  finally show ?thesis .
qed

lemma uniqueEvents_valid:
  assumes "uniqueEvents xs = Inr u"
  shows "\<forall>e \<in> set xs. startTime e \<noteq> None"
  using assms mapEntries_Inr by (auto simp: uniqueEvents_def split: sum.splits)

lemma uniqueEvents_total:
  assumes "\<forall>e \<in> set xs. startTime e \<noteq> None"
  shows "\<exists>u. uniqueEvents xs = Inr u"
  using mapEntries_valid [OF assms] by (auto simp: uniqueEvents_def)

lemma filter_map_entries:
  "filter (\<lambda>e. eventKey e = Inr k) (map snd m) = map snd (filter (\<lambda>p. fst p = k) m)"
  if "\<forall>p \<in> set m. eventKey (snd p) = Inr (fst p)"
  using that by (induction m) auto

lemma uniqueEvents_last:
  assumes u: "uniqueEvents xs = Inr u" and e: "e \<in> set xs"
  shows "filter (\<lambda>e'. eventKey e' = eventKey e) u = [last (filter (\<lambda>e'. eventKey e' = eventKey e) xs)]"
proof -
  obtain entries where en: "mapEntries xs = Inr entries" and um: "u = map snd (new_Map entries)"
    using u by (rule uniqueEvents_Inr)
  have keys: "\<forall>p \<in> set entries. eventKey (snd p) = Inr (fst p)"
    and xs: "map snd entries = xs"
    using mapEntries_keys [OF en] by auto
  have keys': "\<forall>p \<in> set (new_Map entries). eventKey (snd p) = Inr (fst p)"
    using keys set_new_Map [of entries] by blast
  obtain p where p: "p \<in> set entries" "snd p = e"
    using e xs by (metis (no_types, lifting) imageE set_map)
  define k where "k = fst p"
  have ek: "eventKey e = Inr k"
    using keys p by (auto simp: k_def)
  have kin: "k \<in> fst ` set entries"
    using p by (auto simp: k_def)
  have ne: "filter (\<lambda>p. fst p = k) entries \<noteq> []"
    using p by (auto simp: k_def filter_empty_conv)
  have "filter (\<lambda>e'. eventKey e' = Inr k) u = map snd (filter (\<lambda>p. fst p = k) (new_Map entries))"
    unfolding um using keys' by (rule filter_map_entries)
  also have "\<dots> = [snd (last (filter (\<lambda>p. fst p = k) entries))]"
    by (simp add: filter_key_new_Map [OF kin])
  also have "snd (last (filter (\<lambda>p. fst p = k) entries)) = last (map snd (filter (\<lambda>p. fst p = k) entries))"
    using ne by (simp add: last_map)
  also have "map snd (filter (\<lambda>p. fst p = k) entries) = filter (\<lambda>e'. eventKey e' = Inr k) (map snd entries)"
    using keys by (rule filter_map_entries [symmetric])
  finally show ?thesis
    by (simp add: ek xs)
qed

lemma uniqueEvents_distinct:
  assumes "\<forall>e \<in> set xs. startTime e \<noteq> None" "distinct (map eventKey xs)"
  shows "uniqueEvents xs = Inr xs"
proof -
  obtain entries where en: "mapEntries xs = Inr entries"
    using mapEntries_valid [OF assms(1)] by blast
  have "map (\<lambda>p. Inr (fst p)) entries = map eventKey xs"
    using mapEntries_keys(2) [OF en] .
  then have "distinct (map (\<lambda>p. Inr (fst p) :: error + string) entries)"
    using assms(2) by simp
  then have "distinct (map fst entries)"
    by (simp add: distinct_map inj_on_def)
  then have "new_Map entries = entries"
    by (rule new_Map_distinct)
  then show ?thesis
    using en mapEntries_keys(1) [OF en] by (simp add: uniqueEvents_def Map_values_def)
qed

section \<open>Sorting\<close>

text \<open>
  On records with valid start times the comparator is the difference of the time values,
  and the insertion sort by comparator is \<open>sort_key\<close> on the time value.
\<close>

lemma insertBy_insort:
  assumes "\<forall>y \<in> set ys. cmp x y = Some (f x - f y)"
  shows "insertBy cmp x ys = insort_key f x ys"
  using assms by (induction ys) auto

lemma Array_sort_sort_key:
  assumes "\<forall>x \<in> set xs. \<forall>y \<in> set xs. cmp x y = Some (f x - f y)"
  shows "Array_sort cmp xs = sort_key f xs"
  using assms
proof (induction xs)
  case Nil
  show ?case by (simp add: Array_sort_def)
next
  case (Cons x xs)
  have "Array_sort cmp xs = sort_key f xs"
    using Cons by simp
  moreover have "\<forall>y \<in> set (sort_key f xs). cmp x y = Some (f x - f y)"
    using Cons.prems by simp
  ultimately show ?case
    using insertBy_insort [of "sort_key f xs" cmp x f] by (simp add: Array_sort_def)
qed

lemma compareFn_valid:
  "startTime a \<noteq> None \<Longrightarrow> startTime b \<noteq> None \<Longrightarrow>
   compareFn a b = Some (the (startTime a) - the (startTime b))"
  by (auto simp: compareFn_def getTime_def)

lemma Array_sort_compareFn:
  assumes "\<forall>e \<in> set xs. startTime e \<noteq> None"
  shows "Array_sort compareFn xs = sort_key (\<lambda>e. the (startTime e)) xs"
  using assms by (intro Array_sort_sort_key) (simp add: compareFn_valid)

lemma sort_key_valid_sorted:
  assumes "\<forall>e \<in> set u. startTime e \<noteq> None"
  shows "sorted_wrt (\<lambda>a b. \<exists>x y. startTime a = Some x \<and> startTime b = Some y \<and> x \<le> y)
           (sort_key (\<lambda>e. the (startTime e)) u)"
proof -
  let ?f = "\<lambda>e. the (startTime e)"
  have "sorted (map ?f (sort_key ?f u))"
    by (rule sorted_sort_key)
  then have "sorted_wrt (\<lambda>a b. ?f a \<le> ?f b) (sort_key ?f u)"
    by (simp add: sorted_map)
  then show ?thesis
  proof (rule sorted_wrt_mono_rel [rotated])
    fix a b
    assume "a \<in> set (sort_key ?f u)" "b \<in> set (sort_key ?f u)" "?f a \<le> ?f b"
    then have "a \<in> set u" "b \<in> set u" "?f a \<le> ?f b"
      by simp_all
    moreover from this assms obtain x y where "startTime a = Some x" "startTime b = Some y"
      by (meson not_None_eq)
    ultimately show "\<exists>x y. startTime a = Some x \<and> startTime b = Some y \<and> x \<le> y"
      by simp
  qed
qed

lemma sort_key_valid_stable:
  assumes "\<forall>e \<in> set u. startTime e \<noteq> None"
  shows "filter (\<lambda>e. startTime e = t) (sort_key (\<lambda>e. the (startTime e)) u)
         = filter (\<lambda>e. startTime e = t) u"
proof (cases t)
  case None
  then show ?thesis
    using assms by (simp add: filter_empty_conv [THEN iffD2])
next
  case (Some k)
  let ?f = "\<lambda>e. the (startTime e)"
  have "filter (\<lambda>e. startTime e = t) xs = filter (\<lambda>e. ?f e = k) xs" if "set xs \<subseteq> set u" for xs
    using that assms Some by (intro filter_cong) auto
  from this [of u] this [of "sort_key ?f u"] show ?thesis
    by (simp add: sort_key_stable)
qed

lemma distinct_map_sort_key: "distinct (map g (sort_key f xs)) = distinct (map g xs)"
  by (simp add: distinct_map)

section \<open>The aggregator\<close>

text \<open>
  The result of \<open>aggregate\<close>: the sorted \<open>uniqueEvents\<close>, or the empty list when the key
  computation raised.
\<close>

lemma aggregate_sort_key:
  assumes "uniqueEvents (fm @ ch @ co) = Inr u"
  shows "aggregate fm ch co = sort_key (\<lambda>e. the (startTime e)) u"
proof -
  have "\<forall>e \<in> set u. startTime e \<noteq> None"
    using uniqueEvents_valid [OF assms] uniqueEvents_subset [OF assms] by blast
  then show ?thesis
    using assms by (simp add: aggregate_def fetchAllEvents_body_def catchEmpty_def Array_sort_compareFn)
qed

lemma aggregate_fault:
  assumes "uniqueEvents (fm @ ch @ co) = Inl err"
  shows "aggregate fm ch co = []"
  using assms by (simp add: aggregate_def fetchAllEvents_body_def catchEmpty_def)

lemma aggregate_subset: "set (aggregate fm ch co) \<subseteq> set (fm @ ch @ co)"
proof (cases "uniqueEvents (fm @ ch @ co)")
  case (Inl err)
  then show ?thesis by (simp add: aggregate_fault)
next
  case (Inr u)
  then show ?thesis
    using uniqueEvents_subset [OF Inr] by (simp add: aggregate_sort_key)
qed

lemma aggregate_keys_distinct:
  "distinct (map eventKey (aggregate fm ch co))
   \<and> distinct (map (\<lambda>e. (title e, toISOString (startTime e), location e)) (aggregate fm ch co))
   \<and> distinct (map eventKey (fetchAllEvents tz now))"
proof -
  have d: "distinct (map eventKey (aggregate a b c))" for a b c
  proof (cases "uniqueEvents (a @ b @ c)")
    case (Inl err)
    then show ?thesis by (simp add: aggregate_fault)
  next
    case (Inr u)
    then show ?thesis
      by (simp add: aggregate_sort_key distinct_map_sort_key uniqueEvents_keys distinct_keepFirst)
  qed
  have k: "eventKey = (\<lambda>(t, i, l). case i of Inl err \<Rightarrow> Inl err
             | Inr s \<Rightarrow> Inr (t @ ''|'' @ s @ ''|'' @ (case l of None \<Rightarrow> ''undefined'' | Some l \<Rightarrow> l)))
           \<circ> (\<lambda>e. (title e, toISOString (startTime e), location e))"
    by (rule ext) (simp add: eventKey_def)
  have "distinct (map (\<lambda>e. (title e, toISOString (startTime e), location e)) (aggregate fm ch co))"
  proof -
    have "distinct (map f (map g xs)) \<Longrightarrow> distinct (map g xs)" for f :: "'b \<Rightarrow> 'c" and g :: "'a \<Rightarrow> 'b" and xs
      by (auto simp: distinct_map inj_on_def)
    moreover have "distinct (map ((\<lambda>(t, i, l). case i of Inl err \<Rightarrow> Inl err
             | Inr s \<Rightarrow> Inr (t @ ''|'' @ s @ ''|'' @ (case l of None \<Rightarrow> ''undefined'' | Some l \<Rightarrow> l)))) (map (\<lambda>e. (title e, toISOString (startTime e), location e)) (aggregate fm ch co)))"
      using d [of fm ch co] by (subst (asm) k) simp
    ultimately show ?thesis by blast
  qed
  then show ?thesis
    using d by (simp add: fetchAllEvents_def)
qed

lemma fetchAllEvents_body_invalid:
  assumes "\<exists>e \<in> set (fm @ ch @ co). startTime e = None"
  shows "fetchAllEvents_body fm ch co = Inl RangeError"
  using mapEntries_invalid [OF assms] by (simp add: fetchAllEvents_body_def uniqueEvents_def)

lemma fetchAllEvents_body_scrapers:
  "fetchAllEvents_body (scrapeLexingtonFarmersMarket tz now) (scrapeChurchEvents tz now)
       (scrapeYardSalesAndCommunityEvents tz now) = Inr (fetchAllEvents tz now)"
proof -
  obtain u where "uniqueEvents (scrapeLexingtonFarmersMarket tz now @ scrapeChurchEvents tz now
                   @ scrapeYardSalesAndCommunityEvents tz now) = Inr u"
    using uniqueEvents_total [OF scrapers_valid] by blast
  then show ?thesis
    by (simp add: fetchAllEvents_def aggregate_def fetchAllEvents_body_def catchEmpty_def)
qed

section \<open>The keys of the scraped records\<close>

text \<open>
  Records of one template differ in their start times, whatever the zone does between
  them; records of different templates differ in the first character of the title. All
  keys of a run are distinct.
\<close>

lemma eventKey_Some:
  "startTime e = Some a \<Longrightarrow>
   eventKey e = Inr (title e @ ''|'' @ projr (toISOString (Some a)) @ ''|'' @
                     (case location e of None \<Rightarrow> ''undefined'' | Some l \<Rightarrow> l))
   \<and> toISOString (Some a) = Inr (projr (toISOString (Some a)))"
  by (simp add: eventKey_def toISOString_def)

lemma eventKey_same_block:
  assumes "eventKey e = eventKey e'" "title e = title e'" "location e = location e'"
    and "startTime e = Some a" "startTime e' = Some b" "\<bar>a\<bar> \<le> maxTime" "\<bar>b\<bar> \<le> maxTime"
  shows "a = b"
proof -
  let ?l = "case location e of None \<Rightarrow> ''undefined'' | Some l \<Rightarrow> l"
  have "title e @ ''|'' @ projr (toISOString (Some a)) @ ''|'' @ ?l
        = title e @ ''|'' @ projr (toISOString (Some b)) @ ''|'' @ ?l"
    using assms(1) eventKey_Some [OF assms(4)] eventKey_Some [OF assms(5)] assms(2,3) by simp
  then have "projr (toISOString (Some a)) = projr (toISOString (Some b))"
    by simp
  then have "toISOString (Some a) = toISOString (Some b)"
    using eventKey_Some [OF assms(4)] eventKey_Some [OF assms(5)] by metis
  then show ?thesis
    using assms(6,7) by (rule toISOString_inj [rotated 2])
qed

lemma eventKey_hd:
  "startTime e = Some a \<Longrightarrow> title e \<noteq> [] \<Longrightarrow> \<exists>k. eventKey e = Inr k \<and> hd k = hd (title e)"
  by (simp add: eventKey_def toISOString_def)

lemma eventKey_head:
  assumes "eventKey e = eventKey e'" "startTime e \<noteq> None" "title e \<noteq> []" "title e' \<noteq> []"
  shows "hd (title e) = hd (title e')"
proof -
  obtain a where a: "startTime e = Some a" using assms(2) by auto
  obtain k where k: "eventKey e = Inr k" "hd k = hd (title e)"
    using eventKey_hd [OF a assms(3)] by blast
  then have k': "eventKey e' = Inr k" using assms(1) by simp
  then have "startTime e' \<noteq> None"
    by (rule eventKey_Inr)
  then obtain b where b: "startTime e' = Some b" by auto
  obtain k2 where "eventKey e' = Inr k2" "hd k2 = hd (title e')"
    using eventKey_hd [OF b assms(4)] by blast
  then show ?thesis using k k' by simp
qed

text \<open>A run of candidates with one title and location, the valid dates increasing.\<close>

lemma block_distinct:
  fixes g :: "int \<Rightarrow> timeval"
  assumes g: "\<And>i a. g i = Some a \<Longrightarrow> \<bar>a\<bar> \<le> maxTime"
    and m: "\<And>i j a b. i < j \<Longrightarrow> g i = Some a \<Longrightarrow> g j = Some b \<Longrightarrow> a < b"
    and d: "distinct js"
    and E: "\<And>x. title (E x) = T \<and> location (E x) = L \<and> startTime (E x) = x"
  shows "distinct (map eventKey (map (\<lambda>i. E (g i))
            (filter (\<lambda>i. num_gt (getTime (g i)) (getTime (Some now))) js)))"
proof -
  let ?P = "\<lambda>i. num_gt (getTime (g i)) (getTime (Some now))"
  have "inj_on (\<lambda>i. eventKey (E (g i))) (set (filter ?P js))"
  proof (rule inj_onI)
    fix i j
    assume i: "i \<in> set (filter ?P js)" and j: "j \<in> set (filter ?P js)"
      and k: "eventKey (E (g i)) = eventKey (E (g j))"
    obtain a b where a: "g i = Some a" and b: "g j = Some b"
      using i j by (auto simp: num_gt_Some)
    have "a = b"
      using k E a b g [OF a] g [OF b] by (intro eventKey_same_block [of "E (g i)" "E (g j)"]) auto
    then show "i = j"
      using m [OF _ a b] m [OF _ b a] by (cases i j rule: linorder_cases) auto
  qed
  then show ?thesis
    using d by (simp add: distinct_map comp_def)
qed

lemma farmers_keys_distinct: "distinct (map eventKey (scrapeLexingtonFarmersMarket tz now))"
  unfolding farmers_block
proof (rule block_distinct)
  show "distinct [0, 1, 2, 3 :: int]" by simp
  show "title (farmersMarketEvent x) = ''Downtown Farmers Market''
        \<and> location (farmersMarketEvent x) = Some ''Tandy Centennial Park, Lexington, KY''
        \<and> startTime (farmersMarketEvent x) = x" for x
    by (simp add: farmersMarketEvent_def)
  show "\<bar>a\<bar> \<le> maxTime" if "farmersDate tz now i = Some a" for i a
    using that by (rule farmersDate_Some(2))
  show "a < b" if "i < j" "farmersDate tz now i = Some a" "farmersDate tz now j = Some b" for i j a b
    using that by (rule farmersDate_increasing)
qed

lemma church_keys_distinct: "distinct (map eventKey (churchBody tz now [] c))"
proof (cases "churchDate tz now c")
  case None
  then show ?thesis
    unfolding church_block by (simp add: weekDate_None num_gt_def getTime_def)
next
  case (Some e)
  show ?thesis
    unfolding church_block Some
  proof (rule block_distinct)
    show "distinct [0, 1, 2, 3, 4, 5, 6, 7 :: int]" by simp
    show "title (churchEvent c x) = ch_name c @ '': '' @ ch_event c
          \<and> location (churchEvent c x) = Some (ch_location c)
          \<and> startTime (churchEvent c x) = x" for x
      by (simp add: churchEvent_def)
    show "\<bar>a\<bar> \<le> maxTime" if "weekDate tz (Some e) w = Some a" for w a
      using that by (rule weekDate_Some(2))
    show "a < b" if "w < w'" "weekDate tz (Some e) w = Some a" "weekDate tz (Some e) w' = Some b"
      for w w' a b
      using that by (rule weekDate_increasing)
  qed
qed

lemma community_keys_distinct: "distinct (map eventKey (communityBody tz now [] ev))"
  by (simp add: communityBody_Nil)

lemma keys_append:
  assumes "distinct (map eventKey A)" "distinct (map eventKey B)"
    and v: "\<forall>e \<in> set (A @ B). startTime e \<noteq> None \<and> title e \<noteq> []"
    and h: "(\<lambda>e. hd (title e)) ` set A \<inter> (\<lambda>e. hd (title e)) ` set B = {}"
  shows "distinct (map eventKey (A @ B))"
proof -
  have "eventKey e \<noteq> eventKey e'" if "e \<in> set A" "e' \<in> set B" for e e'
  proof
    assume "eventKey e = eventKey e'"
    then have "hd (title e) = hd (title e')"
      using v that by (intro eventKey_head) auto
    then show False using h that by blast
  qed
  then have "set (map eventKey A) \<inter> set (map eventKey B) = {}"
    by auto
  then show ?thesis
    using assms(1,2) by simp
qed

lemma all_keys_distinct_at:
  "distinct (map eventKey (scrapeLexingtonFarmersMarket tz now1 @ scrapeChurchEvents tz now2
                           @ scrapeYardSalesAndCommunityEvents tz now3))"
proof -
  let ?F = "scrapeLexingtonFarmersMarket tz now1"
  let ?C0 = "churchBody tz now2 [] (churches ! 0)" and ?C1 = "churchBody tz now2 [] (churches ! 1)"
  let ?Y0 = "communityBody tz now3 [] (communityEvents ! 0)"
  let ?Y1 = "communityBody tz now3 [] (communityEvents ! 1)"
  let ?Y2 = "communityBody tz now3 [] (communityEvents ! 2)"
  define ok :: "char set \<Rightarrow> ScrapedEvent list \<Rightarrow> bool" where
    "ok S B \<longleftrightarrow> (\<forall>e \<in> set B. startTime e \<noteq> None \<and> title e \<noteq> [] \<and> hd (title e) \<in> S)
                \<and> distinct (map eventKey B)" for S B
  have ok_append: "ok (S \<union> S') (A @ B)" if "ok S A" "ok S' B" "S \<inter> S' = {}" for S S' A B
  proof -
    have "(\<lambda>e. hd (title e)) ` set A \<subseteq> S" "(\<lambda>e. hd (title e)) ` set B \<subseteq> S'"
      using that(1,2) unfolding ok_def by blast+
    then have "(\<lambda>e. hd (title e)) ` set A \<inter> (\<lambda>e. hd (title e)) ` set B = {}"
      using that(3) by blast
    moreover have "\<forall>e \<in> set (A @ B). startTime e \<noteq> None \<and> title e \<noteq> []"
      using that(1,2) unfolding ok_def by auto
    ultimately have "distinct (map eventKey (A @ B))"
      using that(1,2) unfolding ok_def by (intro keys_append) blast+
    then show ?thesis
      using that(1,2) unfolding ok_def by auto
  qed
  have all: "?F @ scrapeChurchEvents tz now2 @ scrapeYardSalesAndCommunityEvents tz now3
             = ?F @ ?C0 @ ?C1 @ ?Y0 @ ?Y1 @ ?Y2"
    by (simp add: scrapeChurch_eq scrapeCommunity_eq churches_def communityEvents_def)
  have t: "ch_name (churches ! 0) @ '': '' @ ch_event (churches ! 0)
             = CHR ''S'' # tl (ch_name (churches ! 0) @ '': '' @ ch_event (churches ! 0))"
      "ch_name (churches ! 1) @ '': '' @ ch_event (churches ! 1)
             = CHR ''F'' # tl (ch_name (churches ! 1) @ '': '' @ ch_event (churches ! 1))"
      "ce_title (communityEvents ! 0) = CHR ''C'' # tl (ce_title (communityEvents ! 0))"
      "ce_title (communityEvents ! 1) = CHR ''E'' # tl (ce_title (communityEvents ! 1))"
      "ce_title (communityEvents ! 2) = CHR ''P'' # tl (ce_title (communityEvents ! 2))"
    by (simp_all add: churches_def communityEvents_def)
  have F: "ok {CHR ''D''} ?F"
    unfolding ok_def using farmers_valid_title [of _ tz now1] farmers_keys_distinct [of tz now1]
    by auto
  have C0: "ok {CHR ''S''} ?C0"
    unfolding ok_def
    using church_valid_title [of _ tz now2 "churches ! 0"] church_keys_distinct [of tz now2 "churches ! 0"] t(1)
    by (metis hd_Cons_tl list.discI list.sel(1) singletonI)
  have C1: "ok {CHR ''F''} ?C1"
    unfolding ok_def
    using church_valid_title [of _ tz now2 "churches ! 1"] church_keys_distinct [of tz now2 "churches ! 1"] t(2)
    by (metis hd_Cons_tl list.discI list.sel(1) singletonI)
  have Y0: "ok {CHR ''C''} ?Y0"
    unfolding ok_def
    using community_valid_title [of _ tz now3 "communityEvents ! 0"] community_keys_distinct [of tz now3 "communityEvents ! 0"] t(3)
    by (metis hd_Cons_tl list.discI list.sel(1) singletonI)
  have Y1: "ok {CHR ''E''} ?Y1"
    unfolding ok_def
    using community_valid_title [of _ tz now3 "communityEvents ! 1"] community_keys_distinct [of tz now3 "communityEvents ! 1"] t(4)
    by (metis hd_Cons_tl list.discI list.sel(1) singletonI)
  have Y2: "ok {CHR ''P''} ?Y2"
    unfolding ok_def
    using community_valid_title [of _ tz now3 "communityEvents ! 2"] community_keys_distinct [of tz now3 "communityEvents ! 2"] t(5)
    by (metis hd_Cons_tl list.discI list.sel(1) singletonI)
  have 1: "ok ({CHR ''E''} \<union> {CHR ''P''}) (?Y1 @ ?Y2)"
    using Y1 Y2 by (rule ok_append) simp
  have 2: "ok ({CHR ''C''} \<union> ({CHR ''E''} \<union> {CHR ''P''})) (?Y0 @ ?Y1 @ ?Y2)"
    using Y0 1 by (rule ok_append) simp
  have 3: "ok ({CHR ''F''} \<union> ({CHR ''C''} \<union> ({CHR ''E''} \<union> {CHR ''P''}))) (?C1 @ ?Y0 @ ?Y1 @ ?Y2)"
    using C1 2 by (rule ok_append) simp
  have 4: "ok ({CHR ''S''} \<union> ({CHR ''F''} \<union> ({CHR ''C''} \<union> ({CHR ''E''} \<union> {CHR ''P''}))))
             (?C0 @ ?C1 @ ?Y0 @ ?Y1 @ ?Y2)"
    using C0 3 by (rule ok_append) simp
  have 5: "ok ({CHR ''D''} \<union> ({CHR ''S''} \<union> ({CHR ''F''} \<union> ({CHR ''C''} \<union> ({CHR ''E''} \<union> {CHR ''P''})))))
             (?F @ ?C0 @ ?C1 @ ?Y0 @ ?Y1 @ ?Y2)"
    using F 4 by (rule ok_append) simp
  show ?thesis
    unfolding all using 5 unfolding ok_def by blast
qed

lemma all_keys_distinct:
  "distinct (map eventKey (scrapeLexingtonFarmersMarket tz now @ scrapeChurchEvents tz now
                           @ scrapeYardSalesAndCommunityEvents tz now))"
  by (rule all_keys_distinct_at)

lemma fetchAllEvents_set:
  "set (fetchAllEvents tz now) = set (scrapeLexingtonFarmersMarket tz now)
     \<union> set (scrapeChurchEvents tz now) \<union> set (scrapeYardSalesAndCommunityEvents tz now)"
proof -
  let ?all = "scrapeLexingtonFarmersMarket tz now @ scrapeChurchEvents tz now
                @ scrapeYardSalesAndCommunityEvents tz now"
  have "uniqueEvents ?all = Inr ?all"
    using scrapers_valid all_keys_distinct by (rule uniqueEvents_distinct)
  then have "fetchAllEvents tz now = sort_key (\<lambda>e. the (startTime e)) ?all"
    unfolding fetchAllEvents_def by (rule aggregate_sort_key)
  then show ?thesis by auto
qed

section \<open>Runs in which the three clock reads differ\<close>

text \<open>
  Each scraper reads the clock itself. What is proved of \<open>fetchAllEvents\<close> for one reading
  holds of \<open>fetchAllEvents_at\<close> for three readings as well, the records being in the future
  of the reading their scraper made.
\<close>

lemma fetchAllEvents_at_same: "fetchAllEvents tz now = fetchAllEvents_at tz now now now"
  by (simp add: fetchAllEvents_def fetchAllEvents_at_def)

lemma fetchAllEvents_at_no_dedup:
  "fetchAllEvents_at tz now1 now2 now3 =
     sort_key (\<lambda>e. the (startTime e))
       (scrapeLexingtonFarmersMarket tz now1 @ scrapeChurchEvents tz now2
        @ scrapeYardSalesAndCommunityEvents tz now3)"
proof -
  let ?all = "scrapeLexingtonFarmersMarket tz now1 @ scrapeChurchEvents tz now2
                @ scrapeYardSalesAndCommunityEvents tz now3"
  have "uniqueEvents ?all = Inr ?all"
    using scrapers_valid_at all_keys_distinct_at by (rule uniqueEvents_distinct)
  then show ?thesis
    unfolding fetchAllEvents_at_def by (rule aggregate_sort_key)
qed

lemma fetchAllEvents_at_future:
  assumes "e \<in> set (fetchAllEvents_at tz now1 now2 now3)"
  shows "\<exists>t. startTime e = Some t \<and> min now1 (min now2 now3) < t"
proof -
  have "e \<in> set (scrapeLexingtonFarmersMarket tz now1) \<or> e \<in> set (scrapeChurchEvents tz now2)
        \<or> e \<in> set (scrapeYardSalesAndCommunityEvents tz now3)"
    using assms by (auto simp: fetchAllEvents_at_no_dedup)
  then show ?thesis
    using farmers_future [of e tz now1] church_future [of e tz now2]
      community_future [of e tz now3] by fastforce
qed

lemma fetchAllEvents_at_sorted:
  "sorted_wrt (\<lambda>a b. \<exists>x y. startTime a = Some x \<and> startTime b = Some y \<and> x \<le> y)
     (fetchAllEvents_at tz now1 now2 now3)"
  unfolding fetchAllEvents_at_no_dedup
  using scrapers_valid_at by (rule sort_key_valid_sorted)

lemma fetchAllEvents_at_keys_distinct:
  "distinct (map eventKey (fetchAllEvents_at tz now1 now2 now3))"
  unfolding fetchAllEvents_at_def using aggregate_keys_distinct by blast

section \<open>Runs at given clock readings\<close>

text \<open>
  The adjustments of the example zones, and two runs in UTC at the end of the range of time
  values. The last time value is Saturday 13 September 275760, 00:00 UTC. From Monday
  1 September, 09:00, one Saturday 08:00 is left that is a valid date; from Tuesday
  9 September, 00:00, the day four days ahead is reached, but not its 19:00.
\<close>

lemma LocalTZA_UTC_zone [simp]: "LocalTZA (fixedZone 0) t isUTC = 0"
  by (simp add: LocalTZA_fixedZone msPerDay_def)

lemma LocalTZA_eastern:
  "LocalTZA easternAutumn2026 t isUTC =
     (if isUTC then (if t < 1793512800000 then - 14400000 else - 18000000)
      else (if t < 1793498400000 then - 14400000 else - 18000000))"
  by (simp add: easternAutumn2026_def LocalTZA_zoneOf msPerDay_def msPerHour_def)

lemma farmers_nonempty:
  assumes "5 * msPerDay - maxTime \<le> now" "now + 32 * msPerDay \<le> maxTime"
  shows "scrapeLexingtonFarmersMarket tz now \<noteq> []"
proof -
  obtain a where a: "farmersDate tz now 1 = Some a"
    using farmersDate_valid [OF assms, of 1 tz] by auto
  then have "now < a"
    by (intro farmersDate_later [of 1]) simp_all
  then have "farmersBody tz now 1 [] \<noteq> []"
    using a by (simp add: farmersBody_emits)
  then show ?thesis
    by (simp add: scrapeFarmers_eq)
qed

lemma farmers_near_end:
  "map startTime (scrapeLexingtonFarmersMarket (fixedZone 0) 8639998995600000)
     = [Some 8639999424000000]"
proof -
  have w: "WeekDay (LocalTime (fixedZone 0) 8639998995600000) = 1"
    by (simp add: WeekDay_def LocalTime_def Day_def msPerDay_def)
  have d: "farmersDate (fixedZone 0) 8639998995600000 0 = Some 8639999424000000"
      "farmersDate (fixedZone 0) 8639998995600000 1 = None"
      "farmersDate (fixedZone 0) 8639998995600000 2 = None"
      "farmersDate (fixedZone 0) 8639998995600000 3 = None"
    unfolding farmersDate_closed w
    by (simp_all add: LocalTime_def UTC_def TimeClip_def maxTime_def msPerDay_def msPerHour_def
          MakeDate_def MakeTime_def Day_def)
  show ?thesis
    by (simp add: scrapeFarmers_eq farmersBody_Nil d num_gt_def getTime_def farmersMarketEvent_def)
qed

lemma farmers_near_end_length:
  "length (scrapeLexingtonFarmersMarket (fixedZone 0) 8639998995600000) = 1"
  using arg_cong [OF farmers_near_end, of length] by simp

lemma community_near_end:
  "communityBody (fixedZone 0) 8639999654400000 [] (communityEvents ! 2) = []"
proof -
  have "communityDate (fixedZone 0) 8639999654400000 (communityEvents ! 2) = None"
    unfolding communityDate_closed
    by (simp add: communityEvents_def LocalTime_def UTC_def TimeClip_def maxTime_def msPerDay_def
          msPerHour_def MakeDate_def MakeTime_def Day_def)
  then show ?thesis
    by (simp add: communityBody_Nil num_gt_def getTime_def)
qed

section \<open>A zone with daylight saving time\<close>

text \<open>
  In US Eastern time around the change of 1 November 2026 every local time exists (the
  clocks are set back, no time is skipped), and the zone is regular on the way to the
  first candidate at every clock reading: the change falls on a Sunday, and on a Saturday
  \<open>now\<close> and 08:00 of its day are on the same side of it.
\<close>

lemma eastern_localTimeExists: "localTimeExists easternAutumn2026 x"
  by (simp add: localTimeExists_def LocalTime_def UTC_def LocalTZA_eastern)

lemma eastern_staysOnDay: "staysOnDay easternAutumn2026 x"
  using eastern_localTimeExists [of x] by (simp add: staysOnDay_def localTimeExists_def)

lemma eastern_regular: "firstCandidateRegular easternAutumn2026 now"
proof (cases "WeekDay (LocalTime easternAutumn2026 now) = 6")
  case False
  then show ?thesis
    by (simp add: firstCandidateRegular_def Let_def LocalTZA_eastern msPerHour_def)
next
  case True
  let ?z = easternAutumn2026
  let ?l = "LocalTime ?z now"
  let ?y = "MakeDate (Day ?l) (MakeTime 8 0 0 0)"
  have b: "Day ?l * 86400000 \<le> ?l" "?l < Day ?l * 86400000 + 86400000"
    using Day_bounds [of ?l] by (simp_all add: msPerDay_def)
  have "(Day ?l + 4) mod 7 = 6"
    using True by (simp add: WeekDay_def)
  then have n: "Day ?l \<noteq> 20758"
    by auto
  have y: "?y = Day ?l * 86400000 + 28800000"
    by (simp add: MakeDate_def MakeTime_def msPerDay_def msPerHour_def)
  have r: "LocalTZA ?z ?y False = LocalTZA ?z now True"
  proof (cases "now < 1793512800000")
    case True
    then have o: "LocalTZA ?z now True = - 14400000"
      by (simp add: LocalTZA_eastern)
    then have l: "?l = now - 14400000"
      by (simp add: LocalTime_def)
    have "Day ?l \<le> 20757"
      using b n l True by linarith
    then have "?y < 1793498400000"
      using y l True by linarith
    then have "LocalTZA ?z ?y False = - 14400000"
      by (simp add: LocalTZA_eastern)
    then show ?thesis
      using o by simp
  next
    case False
    then have o: "LocalTZA ?z now True = - 18000000"
      by (simp add: LocalTZA_eastern)
    then have l: "?l = now - 18000000"
      by (simp add: LocalTime_def)
    have "20759 \<le> Day ?l"
      using b n l False by linarith
    then have "\<not> ?y < 1793498400000"
      using y b by linarith
    then have "LocalTZA ?z ?y False = - 18000000"
      by (simp add: LocalTZA_eastern)
    then show ?thesis
      using o by simp
  qed
  show ?thesis
    unfolding firstCandidateRegular_def Let_def using True r eastern_staysOnDay by simp
qed

text \<open>
  The run of Monday 26 October 2026, 09:00, six days before the change. The Wednesday
  dinners are at 18:00 local time before and after the change, the first two of them seven
  days and one hour apart; the community events are at the hours of their templates, the
  first two after the change, the third before it.
\<close>

lemma churchDate_closed:
  "churchDate tz now c =
     (case TimeClip (UTC tz (LocalTime tz now
              + js_rem (ch_day c - WeekDay (LocalTime tz now) + 7) 7 * msPerDay)) of
        None \<Rightarrow> None
      | Some u \<Rightarrow> TimeClip (UTC tz (MakeDate (Day (LocalTime tz u)) (MakeTime (ch_time c) 0 0 0))))"
proof -
  have "do { d \<leftarrow> getDate tz (Some now);
             k \<leftarrow> do { w \<leftarrow> getDay tz (Some now); Some (js_rem (ch_day c - w + 7) 7) };
             Some (d + k) }
        = do { d \<leftarrow> getDate tz (Some now);
               Some (d + js_rem (ch_day c - WeekDay (LocalTime tz now) + 7) 7) }"
    by (simp add: getDay_def getDate_def)
  then show ?thesis
    unfolding churchDate_def Let_def shift_then_hours_gen [symmetric] by simp
qed

lemma weekDate_closed:
  "weekDate tz (Some e) w = TimeClip (UTC tz (LocalTime tz e + w * 7 * msPerDay))"
  unfolding weekDate_def Let_def setDate_getDate_plus ..

lemma church_across_change:
  "map startTime (churchBody easternAutumn2026 1793019600000 [] (churches ! 1))
     = [Some 1793224800000, Some 1793833200000, Some 1794438000000, Some 1795042800000,
        Some 1795647600000, Some 1796252400000, Some 1796857200000, Some 1797462000000]
   \<and> (1793833200000 :: int) - 1793224800000 = 7 * msPerDay + msPerHour
   \<and> HourFromTime (LocalTime easternAutumn2026 1793224800000) = 18
   \<and> HourFromTime (LocalTime easternAutumn2026 1793833200000) = 18"
proof -
  let ?z = easternAutumn2026
  have l: "LocalTime ?z 1793019600000 = 1793005200000" "LocalTime ?z 1793224800000 = 1793210400000"
      "LocalTime ?z 1793833200000 = 1793815200000"
    by (simp_all add: LocalTime_def LocalTZA_eastern)
  have w: "WeekDay 1793005200000 = 1"
    by (simp add: WeekDay_def Day_def msPerDay_def)
  have k: "js_rem (ch_day (churches ! 1) - 1 + 7) 7 = 2" "ch_time (churches ! 1) = 18"
    by (simp_all add: churches_def js_rem_def)
  have e: "churchDate ?z 1793019600000 (churches ! 1) = Some 1793224800000"
    unfolding churchDate_closed l w k
    by (simp add: LocalTime_def UTC_def LocalTZA_eastern TimeClip_def maxTime_def msPerDay_def
          msPerHour_def MakeDate_def MakeTime_def Day_def)
  have d: "weekDate ?z (Some 1793224800000) 0 = Some 1793224800000"
      "weekDate ?z (Some 1793224800000) 1 = Some 1793833200000"
      "weekDate ?z (Some 1793224800000) 2 = Some 1794438000000"
      "weekDate ?z (Some 1793224800000) 3 = Some 1795042800000"
      "weekDate ?z (Some 1793224800000) 4 = Some 1795647600000"
      "weekDate ?z (Some 1793224800000) 5 = Some 1796252400000"
      "weekDate ?z (Some 1793224800000) 6 = Some 1796857200000"
      "weekDate ?z (Some 1793224800000) 7 = Some 1797462000000"
    unfolding weekDate_closed l
    by (simp_all add: UTC_def LocalTZA_eastern TimeClip_def maxTime_def msPerDay_def)
  have "map startTime (churchBody ?z 1793019600000 [] (churches ! 1))
     = [Some 1793224800000, Some 1793833200000, Some 1794438000000, Some 1795042800000,
        Some 1795647600000, Some 1796252400000, Some 1796857200000, Some 1797462000000]"
    unfolding churchBody_expand e weekBody_Nil d
    by (simp add: num_gt_def getTime_def churchEvent_def)
  then show ?thesis
    unfolding l by (simp add: HourFromTime_def msPerDay_def msPerHour_def)
qed

lemma community_across_change:
  "map startTime (scrapeYardSalesAndCommunityEvents easternAutumn2026 1793019600000)
     = [Some 1793628000000, Some 1794229200000, Some 1793401200000]
   \<and> HourFromTime (LocalTime easternAutumn2026 1793628000000) = 9
   \<and> HourFromTime (LocalTime easternAutumn2026 1794229200000) = 8
   \<and> HourFromTime (LocalTime easternAutumn2026 1793401200000) = 19"
proof -
  let ?z = easternAutumn2026
  have l: "LocalTime ?z 1793019600000 = 1793005200000" "LocalTime ?z 1793628000000 = 1793610000000"
      "LocalTime ?z 1794229200000 = 1794211200000" "LocalTime ?z 1793401200000 = 1793386800000"
    by (simp_all add: LocalTime_def LocalTZA_eastern)
  have d: "communityDate ?z 1793019600000 (communityEvents ! 0) = Some 1793628000000"
      "communityDate ?z 1793019600000 (communityEvents ! 1) = Some 1794229200000"
      "communityDate ?z 1793019600000 (communityEvents ! 2) = Some 1793401200000"
    unfolding communityDate_closed l
    by (simp_all add: communityEvents_def LocalTime_def UTC_def LocalTZA_eastern TimeClip_def
          maxTime_def msPerDay_def msPerHour_def MakeDate_def MakeTime_def Day_def)
  have c: "communityEvents = [communityEvents ! 0, communityEvents ! 1, communityEvents ! 2]"
    by (simp add: communityEvents_def)
  have s: "scrapeYardSalesAndCommunityEvents ?z 1793019600000 =
          communityBody ?z 1793019600000 [] (communityEvents ! 0)
          @ communityBody ?z 1793019600000 [] (communityEvents ! 1)
          @ communityBody ?z 1793019600000 [] (communityEvents ! 2)"
    unfolding scrapeCommunity_eq by (subst c) simp
  have "map startTime (scrapeYardSalesAndCommunityEvents ?z 1793019600000)
     = [Some 1793628000000, Some 1794229200000, Some 1793401200000]"
    unfolding s communityBody_Nil d
    by (simp add: num_gt_def getTime_def communityRecord_def)
  then show ?thesis
    unfolding l by (simp add: HourFromTime_def msPerHour_def)
qed

section \<open>Zones that move across the date line\<close>

text \<open>
  Where the zone skips a day, a date set on it falls on the next day. In Kwajalein, from
  Monday 16 August 1993, 09:00, the first record of the farmers market scraper is on
  Sunday 22 August, six days ahead, and from Tuesday 17 August, 12:00, the record of the
  template with day offset 4 is on that Sunday, five days ahead. Where the zone repeats a
  day, 08:00 of a Saturday that already passed is behind \<open>now\<close>: in \<open>datelineEast\<close>, on the
  Friday that follows the first passage of Saturday 7 November 2026, at 13:00, the first
  candidate is five hours back, and the farmers market scraper returns 3 records.
\<close>

lemma LocalTZA_kwajalein:
  "LocalTZA kwajalein1993 t isUTC =
     (if isUTC then (if t < 745934400000 then - 43200000 else 43200000)
      else (if t < 745977600000 then - 43200000 else 43200000))"
  by (simp add: kwajalein1993_def LocalTZA_zoneOf msPerDay_def msPerHour_def)

lemma LocalTZA_dateline:
  "LocalTZA datelineEast t isUTC =
     (if isUTC then (if t < 1794009600000 then 43200000 else - 43200000)
      else (if t < 1794052800000 then 43200000 else - 43200000))"
  by (simp add: datelineEast_def LocalTZA_zoneOf msPerDay_def msPerHour_def)

lemma farmers_skipped_saturday:
  "WeekDay (LocalTime kwajalein1993 745534800000) = 1
   \<and> TimeWithinDay (LocalTime kwajalein1993 745534800000) = MakeTime 9 0 0 0
   \<and> map startTime (scrapeLexingtonFarmersMarket kwajalein1993 745534800000)
       = [Some 745963200000, Some 746481600000, Some 747086400000, Some 747691200000]
   \<and> WeekDay (LocalTime kwajalein1993 745963200000) = 0
   \<and> Day (LocalTime kwajalein1993 745963200000) = Day (LocalTime kwajalein1993 745534800000) + 6"
proof -
  let ?z = kwajalein1993
  have l: "LocalTime ?z 745534800000 = 745491600000" "LocalTime ?z 745963200000 = 746006400000"
    by (simp_all add: LocalTime_def LocalTZA_kwajalein)
  have w: "WeekDay 745491600000 = 1" "WeekDay 746006400000 = 0"
      "Day 745491600000 = 8628" "Day 746006400000 = 8634"
      "TimeWithinDay 745491600000 = MakeTime 9 0 0 0"
    by (simp_all add: WeekDay_def Day_def TimeWithinDay_def MakeTime_def msPerDay_def msPerHour_def)
  have d: "farmersDate ?z 745534800000 0 = Some 745963200000"
      "farmersDate ?z 745534800000 1 = Some 746481600000"
      "farmersDate ?z 745534800000 2 = Some 747086400000"
      "farmersDate ?z 745534800000 3 = Some 747691200000"
    unfolding farmersDate_closed l w
    by (simp_all add: LocalTime_def UTC_def LocalTZA_kwajalein TimeClip_def maxTime_def msPerDay_def
          msPerHour_def MakeDate_def MakeTime_def Day_def)
  show ?thesis
    unfolding l w
    by (simp add: scrapeFarmers_eq farmersBody_Nil d num_gt_def getTime_def farmersMarketEvent_def)
qed

lemma community_skipped_saturday:
  "WeekDay (LocalTime kwajalein1993 745632000000) = 2
   \<and> communityBody kwajalein1993 745632000000 [] (communityEvents ! 2)
       = [communityRecord (communityEvents ! 2) (Some 746002800000)]
   \<and> WeekDay (LocalTime kwajalein1993 746002800000) = 0
   \<and> Day (LocalTime kwajalein1993 746002800000) = Day (LocalTime kwajalein1993 745632000000) + 5"
proof -
  let ?z = kwajalein1993
  have l: "LocalTime ?z 745632000000 = 745588800000" "LocalTime ?z 746002800000 = 746046000000"
    by (simp_all add: LocalTime_def LocalTZA_kwajalein)
  have w: "WeekDay 745588800000 = 2" "WeekDay 746046000000 = 0"
      "Day 745588800000 = 8629" "Day 746046000000 = 8634"
    by (simp_all add: WeekDay_def Day_def msPerDay_def)
  have d: "communityDate ?z 745632000000 (communityEvents ! 2) = Some 746002800000"
    unfolding communityDate_closed l
    by (simp add: communityEvents_def LocalTime_def UTC_def LocalTZA_kwajalein TimeClip_def maxTime_def
          msPerDay_def msPerHour_def MakeDate_def MakeTime_def Day_def)
  show ?thesis
    unfolding l w
    by (simp add: communityBody_Nil d num_gt_def getTime_def)
qed

lemma farmers_repeated_day:
  "WeekDay (LocalTime datelineEast 1794013200000) = 5
   \<and> map startTime (scrapeLexingtonFarmersMarket datelineEast 1794013200000)
       = [Some 1794686400000, Some 1795291200000, Some 1795896000000]
   \<and> farmersDate datelineEast 1794013200000 0 = Some 1793995200000"
proof -
  let ?z = datelineEast
  have l: "LocalTime ?z 1794013200000 = 1793970000000"
    by (simp add: LocalTime_def LocalTZA_dateline)
  have w: "WeekDay 1793970000000 = 5"
    by (simp add: WeekDay_def Day_def msPerDay_def)
  have d: "farmersDate ?z 1794013200000 0 = Some 1793995200000"
      "farmersDate ?z 1794013200000 1 = Some 1794686400000"
      "farmersDate ?z 1794013200000 2 = Some 1795291200000"
      "farmersDate ?z 1794013200000 3 = Some 1795896000000"
    unfolding farmersDate_closed l w
    by (simp_all add: LocalTime_def UTC_def LocalTZA_dateline TimeClip_def maxTime_def msPerDay_def
          msPerHour_def MakeDate_def MakeTime_def Day_def)
  show ?thesis
    unfolding l w
    by (simp add: scrapeFarmers_eq farmersBody_Nil d num_gt_def getTime_def farmersMarketEvent_def)
qed


section \<open>The properties\<close>

text \<open>
  C1. In \<open>fetchAllEvents\<close>, when records of the concatenated scraper outputs share the key
  \<open>title|ISO-8601 startTime|location\<close>, exactly one record with that key survives the
  deduplication; it stands where the first record with that key stood (the keys of
  \<open>uniqueEvents\<close> are the keys of the concatenation, each at its first occurrence), and it
  is the last record with that key in concatenation order. The premise says that no key
  computation raised, which holds whenever every start time is a valid date.
\<close>

theorem dedup_first_position_last_content:
  assumes "uniqueEvents (farmersMarket @ churchEvents @ community) = Inr unique"
  shows "aggregate farmersMarket churchEvents community = Array_sort compareFn unique
       \<and> map eventKey unique = keepFirst (map eventKey (farmersMarket @ churchEvents @ community))
       \<and> (\<forall>e \<in> set (farmersMarket @ churchEvents @ community).
            filter (\<lambda>e'. eventKey e' = eventKey e) unique
            = [last (filter (\<lambda>e'. eventKey e' = eventKey e) (farmersMarket @ churchEvents @ community))])"
proof -
  have "aggregate farmersMarket churchEvents community = Array_sort compareFn unique"
    using assms by (simp add: aggregate_def fetchAllEvents_body_def catchEmpty_def)
  then show ?thesis
    using uniqueEvents_keys [OF assms] uniqueEvents_last [OF assms] by blast
qed

theorem dedup_first_position_last_content_witness:
  "uniqueEvents ([dupEarlier] @ [otherEvent] @ [dupLater]) = Inr [dupLater, otherEvent]
   \<and> eventKey dupEarlier = eventKey dupLater \<and> dupEarlier \<noteq> dupLater
   \<and> (aggregate [dupEarlier] [otherEvent] [dupLater] = Array_sort compareFn [dupLater, otherEvent]
       \<and> map eventKey [dupLater, otherEvent]
           = keepFirst (map eventKey ([dupEarlier] @ [otherEvent] @ [dupLater]))
       \<and> filter (\<lambda>e'. eventKey e' = eventKey dupEarlier) [dupLater, otherEvent]
           = [last (filter (\<lambda>e'. eventKey e' = eventKey dupEarlier)
                      ([dupEarlier] @ [otherEvent] @ [dupLater]))])"
proof -
  have u: "uniqueEvents ([dupEarlier] @ [otherEvent] @ [dupLater]) = Inr [dupLater, otherEvent]"
    by code_simp
  have k: "eventKey dupEarlier = eventKey dupLater"
    by code_simp
  have d: "dupEarlier \<noteq> dupLater"
    by (simp add: dupEarlier_def dupLater_def)
  have m: "dupEarlier \<in> set ([dupEarlier] @ [otherEvent] @ [dupLater])"
    by simp
  show ?thesis
    using u k d m dedup_first_position_last_content [OF u] by blast
qed

text \<open>
  C2. Whatever the clock reading \<open>now\<close> is, every record returned by \<open>fetchAllEvents\<close>, and
  by each of the three scrapers on its own, has a valid start time strictly greater than
  \<open>now\<close>.
\<close>

theorem all_events_future:
  "\<forall>e \<in> set (fetchAllEvents tz now) \<union> set (scrapeLexingtonFarmersMarket tz now)
        \<union> set (scrapeChurchEvents tz now) \<union> set (scrapeYardSalesAndCommunityEvents tz now).
     \<exists>t. startTime e = Some t \<and> now < t"
proof -
  have "set (fetchAllEvents tz now) \<subseteq> set (scrapeLexingtonFarmersMarket tz now)
        \<union> set (scrapeChurchEvents tz now) \<union> set (scrapeYardSalesAndCommunityEvents tz now)"
    using aggregate_subset unfolding fetchAllEvents_def by fastforce
  then show ?thesis
    using farmers_future church_future community_future by blast
qed

theorem all_events_future_witness:
  "\<exists>e \<in> set (fetchAllEvents (fixedZone 0) 1793610000000)
        \<union> set (scrapeLexingtonFarmersMarket (fixedZone 0) 1793610000000)
        \<union> set (scrapeChurchEvents (fixedZone 0) 1793610000000)
        \<union> set (scrapeYardSalesAndCommunityEvents (fixedZone 0) 1793610000000).
     \<exists>t. startTime e = Some t \<and> 1793610000000 < t"
proof -
  have "scrapeLexingtonFarmersMarket (fixedZone 0) 1793610000000 \<noteq> []"
    by (rule farmers_nonempty) (simp_all add: msPerDay_def maxTime_def)
  then obtain e where "e \<in> set (scrapeLexingtonFarmersMarket (fixedZone 0) 1793610000000)"
    by (cases "scrapeLexingtonFarmersMarket (fixedZone 0) 1793610000000") auto
  with all_events_future [of "fixedZone 0" 1793610000000] show ?thesis
    by blast
qed

text \<open>
  C3. The list returned by \<open>fetchAllEvents\<close> is sorted non-decreasing by start time, and the
  sort is stable: the records with one and the same start time stand in the order they had
  in \<open>uniqueEvents\<close>, the result of the deduplication step (which never raises on the
  scrapers' output).
\<close>

theorem fetchAllEvents_sorted_stable:
  "\<exists>u. uniqueEvents (scrapeLexingtonFarmersMarket tz now @ scrapeChurchEvents tz now
                       @ scrapeYardSalesAndCommunityEvents tz now) = Inr u
      \<and> sorted_wrt (\<lambda>a b. \<exists>x y. startTime a = Some x \<and> startTime b = Some y \<and> x \<le> y)
           (fetchAllEvents tz now)
      \<and> (\<forall>t. filter (\<lambda>e. startTime e = t) (fetchAllEvents tz now)
               = filter (\<lambda>e. startTime e = t) u)
      \<and> length (fetchAllEvents tz now) = length u"
proof -
  let ?all = "scrapeLexingtonFarmersMarket tz now @ scrapeChurchEvents tz now
                @ scrapeYardSalesAndCommunityEvents tz now"
  obtain u where u: "uniqueEvents ?all = Inr u"
    using uniqueEvents_total [OF scrapers_valid] by blast
  have v: "\<forall>e \<in> set u. startTime e \<noteq> None"
    using uniqueEvents_subset [OF u] scrapers_valid by blast
  have f: "fetchAllEvents tz now = sort_key (\<lambda>e. the (startTime e)) u"
    using aggregate_sort_key [of "scrapeLexingtonFarmersMarket tz now" "scrapeChurchEvents tz now"
            "scrapeYardSalesAndCommunityEvents tz now" u] u
    by (simp add: fetchAllEvents_def)
  show ?thesis
    using u sort_key_valid_sorted [OF v] sort_key_valid_stable [OF v] unfolding f by auto
qed

text \<open>
  C4, amended. When \<open>now\<close> is a Monday at 09:00 local time and the four candidate dates are
  valid dates, the farmers market scraper returns exactly 4 records, each strictly after
  \<open>now\<close>, whatever the zone does. Where moreover no change of the zone moves 09:00 of the
  Saturdays 5, 12, 19 and 26 days after that Monday to another day or skips 08:00 on them,
  the start times are 08:00:00.000 local time on those four days, each a Saturday; the
  zone may change between \<open>now\<close> and the candidates, and between one candidate and the
  next. The candidates are valid dates unless \<open>now\<close> is within 32 days of the end of the
  range of time values (\<open>farmersDate_valid\<close>).
\<close>

theorem farmers_monday:
  assumes "WeekDay (LocalTime tz now) = 1"
    and "TimeWithinDay (LocalTime tz now) = MakeTime 9 0 0 0"
    and "\<forall>i \<in> {0, 1, 2, 3}. farmersDate tz now i \<noteq> None"
  shows "length (scrapeLexingtonFarmersMarket tz now) = 4
       \<and> (\<forall>e \<in> set (scrapeLexingtonFarmersMarket tz now). \<exists>t. startTime e = Some t \<and> now < t)
       \<and> ((\<forall>k \<in> {5, 12, 19, 26}.
               staysOnDay tz (MakeDate (Day (LocalTime tz now) + k) (MakeTime 9 0 0 0))
             \<and> localTimeExists tz (MakeDate (Day (LocalTime tz now) + k) (MakeTime 8 0 0 0)))
          \<longrightarrow>
            scrapeLexingtonFarmersMarket tz now =
              map (\<lambda>k. farmersMarketEvent
                     (Some (UTC tz (MakeDate (Day (LocalTime tz now) + k) (MakeTime 8 0 0 0)))))
                  [5, 12, 19, 26]
          \<and> (\<forall>k \<in> {5, 12, 19, 26}.
               WeekDay (LocalTime tz (UTC tz (MakeDate (Day (LocalTime tz now) + k) (MakeTime 8 0 0 0)))) = 6
             \<and> TimeWithinDay (LocalTime tz (UTC tz (MakeDate (Day (LocalTime tz now) + k) (MakeTime 8 0 0 0))))
                 = MakeTime 8 0 0 0
             \<and> Day (LocalTime tz (UTC tz (MakeDate (Day (LocalTime tz now) + k) (MakeTime 8 0 0 0))))
                 = Day (LocalTime tz now) + k
             \<and> now < UTC tz (MakeDate (Day (LocalTime tz now) + k) (MakeTime 8 0 0 0))))"
proof -
  let ?d = "Day (LocalTime tz now)"
  let ?t = "\<lambda>k. MakeDate (?d + k) (MakeTime 8 0 0 0)"
  obtain a0 where a0: "farmersDate tz now 0 = Some a0"
    using assms(3) by auto
  have "5 \<le> 6 - WeekDay (LocalTime tz now) + 0 * 7"
    using assms(1) by simp
  then have "now < a0"
    unfolding farmersDate_Some(1) [OF a0] by (intro later_far) simp_all
  then have first: "num_gt (getTime (farmersDate tz now 0)) (getTime (Some now))"
    using a0 by (simp add: num_gt_Some)
  have A: "length (scrapeLexingtonFarmersMarket tz now) = 4"
    unfolding farmers_first_only [OF assms(3)] using first by simp
  have B: "\<forall>e \<in> set (scrapeLexingtonFarmersMarket tz now). \<exists>t. startTime e = Some t \<and> now < t"
    using farmers_future by blast
  have C: "scrapeLexingtonFarmersMarket tz now =
              map (\<lambda>k. farmersMarketEvent (Some (UTC tz (?t k)))) [5, 12, 19, 26]
          \<and> (\<forall>k \<in> {5, 12, 19, 26}.
               WeekDay (LocalTime tz (UTC tz (?t k))) = 6
             \<and> TimeWithinDay (LocalTime tz (UTC tz (?t k))) = MakeTime 8 0 0 0
             \<and> Day (LocalTime tz (UTC tz (?t k))) = ?d + k
             \<and> now < UTC tz (?t k))"
    if s: "\<forall>k \<in> {5, 12, 19, 26}. staysOnDay tz (MakeDate (?d + k) (MakeTime 9 0 0 0))"
      and x: "\<forall>k \<in> {5, 12, 19, 26}. localTimeExists tz (?t k)"
  proof -
    have n: "LocalTime tz now + k * msPerDay = MakeDate (?d + k) (MakeTime 9 0 0 0)" for k
      using MakeDate_shift [of "LocalTime tz now" k] assms(2) by simp
    have date: "farmersDate tz now i = Some (UTC tz (?t (5 + i * 7)))"
      if "i \<in> {0, 1, 2, 3}" for i
    proof -
      have "farmersDate tz now i \<noteq> None"
        using assms(3) that by blast
      then obtain a where a: "farmersDate tz now i = Some a"
        by auto
      have "staysOnDay tz (MakeDate (?d + (5 + i * 7)) (MakeTime 9 0 0 0))"
        using s that by auto
      then have "Day (LocalTime tz (UTC tz (MakeDate (?d + (5 + i * 7)) (MakeTime 9 0 0 0))))
                 = ?d + (5 + i * 7)"
        by (simp add: staysOnDay_def Day_MakeDate_hours)
      then have "a = UTC tz (?t (5 + i * 7))"
        using farmersDate_Some(1) [OF a] assms(1) by (simp add: n)
      then show ?thesis
        using a by simp
    qed
    have later: "now < UTC tz (?t k)" if "3 \<le> k" for k
      using that by (intro later_on_day) simp_all
    have 1: "scrapeLexingtonFarmersMarket tz now
             = map (\<lambda>k. farmersMarketEvent (Some (UTC tz (?t k)))) [5, 12, 19, 26]"
      unfolding farmers_first_only [OF assms(3)]
      using first date [of 0] date [of 1] date [of 2] date [of 3] by simp
    have 2: "LocalTime tz (UTC tz (?t k)) = ?t k" if "k \<in> {5, 12, 19, 26}" for k
      using x that unfolding localTimeExists_def by blast
    have 3: "Day (?t k) = ?d + k" "TimeWithinDay (?t k) = MakeTime 8 0 0 0" for k
      by (simp_all add: Day_MakeDate_hours)
    have 4: "WeekDay (?t k) = (1 + k) mod 7" for k
      using WeekDay_shift [OF assms(1) 3(1)] .
    have 5: "WeekDay (LocalTime tz (UTC tz (?t k))) = 6
             \<and> TimeWithinDay (LocalTime tz (UTC tz (?t k))) = MakeTime 8 0 0 0
             \<and> Day (LocalTime tz (UTC tz (?t k))) = ?d + k
             \<and> now < UTC tz (?t k)" if "k \<in> {5, 12, 19, 26}" for k
      unfolding 2 [OF that] 3 4 using that later [of k] by auto
    show ?thesis
      using 1 5 by blast
  qed
  show ?thesis
    using A B C by blast
qed

theorem farmers_monday_witness:
  "WeekDay (LocalTime easternAutumn2026 1793019600000) = 1
   \<and> TimeWithinDay (LocalTime easternAutumn2026 1793019600000) = MakeTime 9 0 0 0
   \<and> map startTime (scrapeLexingtonFarmersMarket easternAutumn2026 1793019600000)
       = [Some 1793448000000, Some 1794056400000, Some 1794661200000, Some 1795266000000]
   \<and> LocalTime easternAutumn2026 1793448000000 = MakeDate 20757 (MakeTime 8 0 0 0)
   \<and> LocalTime easternAutumn2026 1794056400000 = MakeDate 20764 (MakeTime 8 0 0 0)"
proof -
  let ?z = easternAutumn2026
  have l: "LocalTime ?z 1793019600000 = 1793005200000"
    by (simp add: LocalTime_def LocalTZA_eastern)
  have d: "Day 1793005200000 = 20752"
    by (simp add: Day_def msPerDay_def)
  have m: "WeekDay (LocalTime ?z 1793019600000) = 1"
      "TimeWithinDay (LocalTime ?z 1793019600000) = MakeTime 9 0 0 0"
    unfolding l by (simp_all add: WeekDay_def d TimeWithinDay_def MakeTime_def msPerDay_def msPerHour_def)
  have v: "\<forall>i \<in> {0, 1, 2, 3}. farmersDate ?z 1793019600000 i \<noteq> None"
    by (rule farmersDate_valid_all) (simp_all add: msPerDay_def maxTime_def)
  have s: "\<forall>k \<in> {5, 12, 19, 26}.
             staysOnDay ?z (MakeDate (Day (LocalTime ?z 1793019600000) + k) (MakeTime 9 0 0 0))"
    unfolding l d
    by (simp add: staysOnDay_def MakeDate_def MakeTime_def UTC_def LocalTime_def LocalTZA_eastern
          Day_def msPerDay_def msPerHour_def)
  have e: "\<forall>k \<in> {5, 12, 19, 26}.
             localTimeExists ?z (MakeDate (Day (LocalTime ?z 1793019600000) + k) (MakeTime 8 0 0 0))"
    unfolding l d
    by (simp add: localTimeExists_def MakeDate_def MakeTime_def UTC_def LocalTime_def LocalTZA_eastern
          msPerDay_def msPerHour_def)
  have t: "LocalTime ?z 1793448000000 = MakeDate 20757 (MakeTime 8 0 0 0)"
      "LocalTime ?z 1794056400000 = MakeDate 20764 (MakeTime 8 0 0 0)"
    by (simp_all add: LocalTime_def LocalTZA_eastern MakeDate_def MakeTime_def msPerDay_def msPerHour_def)
  have "scrapeLexingtonFarmersMarket ?z 1793019600000 =
          map (\<lambda>k. farmersMarketEvent
                 (Some (UTC ?z (MakeDate (Day (LocalTime ?z 1793019600000) + k) (MakeTime 8 0 0 0)))))
              [5, 12, 19, 26]"
    using farmers_monday [OF m v] s e by blast
  then have "map startTime (scrapeLexingtonFarmersMarket ?z 1793019600000)
       = [Some 1793448000000, Some 1794056400000, Some 1794661200000, Some 1795266000000]"
    unfolding l d
    by (simp add: farmersMarketEvent_def UTC_def LocalTZA_eastern MakeDate_def MakeTime_def
          msPerDay_def msPerHour_def)
  then show ?thesis
    using m t by simp
qed

theorem farmers_monday_counterexample:
  "WeekDay (LocalTime (fixedZone 0) 8639998995600000) = 1
   \<and> TimeWithinDay (LocalTime (fixedZone 0) 8639998995600000) = MakeTime 9 0 0 0
   \<and> length (scrapeLexingtonFarmersMarket (fixedZone 0) 8639998995600000) = 1
   \<and> map startTime (scrapeLexingtonFarmersMarket (fixedZone 0) 8639998995600000)
       = [Some 8639999424000000]"
  using farmers_near_end farmers_near_end_length
  by (simp add: WeekDay_def TimeWithinDay_def LocalTime_def Day_def MakeTime_def
        msPerDay_def msPerHour_def)

text \<open>
  C5. No two records in the list returned by \<open>fetchAllEvents\<close> have the same composite
  key: neither the same key string \<open>title|ISO-8601 startTime|location\<close>, nor the same
  triple of title, serialized start time and location.
\<close>

theorem fetchAllEvents_keys_distinct:
  "distinct (map eventKey (fetchAllEvents tz now))
   \<and> distinct (map (\<lambda>e. (title e, toISOString (startTime e), location e))
                  (fetchAllEvents tz now))"
  using aggregate_keys_distinct
  unfolding fetchAllEvents_def by blast

text \<open>
  C6. Neither \<open>fetchAllEvents\<close> nor a scraper ever raises to its caller. No scraper body
  raises, and the aggregator's body does not raise on the scrapers' output; whatever a body
  could raise is caught and answered with the empty list, as for the \<open>RangeError\<close> of
  \<open>toISOString\<close> on an Invalid Date during deduplication; and a scraper that fails
  contributes nothing while the result is the aggregate of the other scrapers' records.
\<close>

theorem faults_are_contained:
  "(\<exists>evs. scrapeLexingtonFarmersMarket_body tz now = Inr evs)
   \<and> (\<exists>evs. scrapeChurchEvents_body tz now = Inr evs)
   \<and> (\<exists>evs. scrapeYardSalesAndCommunityEvents_body tz now = Inr evs)
   \<and> fetchAllEvents_body (scrapeLexingtonFarmersMarket tz now) (scrapeChurchEvents tz now)
        (scrapeYardSalesAndCommunityEvents tz now) = Inr (fetchAllEvents tz now)
   \<and> fetchAllEvents tz now
       = fetchAllEvents_of (scrapeLexingtonFarmersMarket_body tz now) (scrapeChurchEvents_body tz now)
           (scrapeYardSalesAndCommunityEvents_body tz now)
   \<and> catchEmpty (Inl err) = ([] :: ScrapedEvent list)
   \<and> (fetchAllEvents_body fm ch co = Inl err' \<longrightarrow> aggregate fm ch co = [])
   \<and> ((\<exists>e \<in> set (fm @ ch @ co). startTime e = None) \<longrightarrow> aggregate fm ch co = [])
   \<and> fetchAllEvents_of (Inl err) (Inr ch) (Inr co) = aggregate [] ch co
   \<and> fetchAllEvents_of (Inr fm) (Inl err) (Inr co) = aggregate fm [] co
   \<and> fetchAllEvents_of (Inr fm) (Inr ch) (Inl err) = aggregate fm ch []
   \<and> fetchAllEvents_of (Inl err) (Inl err) (Inl err) = []"
proof -
  have 1: "fetchAllEvents tz now
       = fetchAllEvents_of (scrapeLexingtonFarmersMarket_body tz now) (scrapeChurchEvents_body tz now)
           (scrapeYardSalesAndCommunityEvents_body tz now)"
    by (simp add: fetchAllEvents_def fetchAllEvents_of_def scrapeLexingtonFarmersMarket_def
          scrapeChurchEvents_def scrapeYardSalesAndCommunityEvents_def)
  have 2: "aggregate fm ch co = []" if "fetchAllEvents_body fm ch co = Inl err'"
    using that by (simp add: aggregate_def catchEmpty_def)
  have 3: "aggregate fm ch co = []" if "\<exists>e \<in> set (fm @ ch @ co). startTime e = None"
    using fetchAllEvents_body_invalid [OF that] by (simp add: aggregate_def catchEmpty_def)
  have 4: "aggregate [] [] [] = []"
    by (simp add: aggregate_def fetchAllEvents_body_def uniqueEvents_def new_Map_def Map_values_def
          Array_sort_def catchEmpty_def)
  show ?thesis
    using 1 2 3 4 fetchAllEvents_body_scrapers [of tz now]
    by (simp add: scrapeLexingtonFarmersMarket_body_def scrapeChurchEvents_body_def
          scrapeYardSalesAndCommunityEvents_body_def fetchAllEvents_of_def catchEmpty_def)
qed

theorem faults_are_contained_witness:
  "(\<exists>e \<in> set ([dupEarlier] @ [invalidEvent] @ [otherEvent]). startTime e = None)
   \<and> fetchAllEvents_body [dupEarlier] [invalidEvent] [otherEvent] = Inl RangeError
   \<and> aggregate [dupEarlier] [invalidEvent] [otherEvent] = []"
proof -
  have i: "\<exists>e \<in> set ([dupEarlier] @ [invalidEvent] @ [otherEvent]). startTime e = None"
    by (simp add: invalidEvent_def)
  have b: "fetchAllEvents_body [dupEarlier] [invalidEvent] [otherEvent] = Inl RangeError"
    using i by (rule fetchAllEvents_body_invalid)
  show ?thesis
    using i b faults_are_contained [of "fixedZone 0" 0 RangeError "[dupEarlier]" "[invalidEvent]" "[otherEvent]" RangeError]
    by blast
qed

text \<open>
  C7. Whatever \<open>now\<close> is, the farmers market scraper returns at most 4 records, and the
  church scraper at most 8 records for each of its two churches, hence at most 16.
\<close>

theorem scraper_bounds:
  "length (scrapeLexingtonFarmersMarket tz now) \<le> 4
   \<and> length (scrapeChurchEvents tz now) \<le> 16
   \<and> (\<forall>c \<in> set churches.
         length (filter (\<lambda>e. title e = ch_name c @ '': '' @ ch_event c) (scrapeChurchEvents tz now)) \<le> 8)"
proof -
  have f: "length (farmersBody tz now i []) \<le> 1" for i
    by (rule farmersBody_length)
  have 1: "length (scrapeLexingtonFarmersMarket tz now) \<le> 4"
    unfolding scrapeFarmers_eq length_append
    using f [of 0] f [of 1] f [of 2] f [of 3] by linarith
  have c: "length (churchBody tz now [] c) \<le> 8" for c
    by (rule churchBody_length)
  have 2: "length (scrapeChurchEvents tz now) \<le> 16"
    unfolding scrapeChurch_two length_append
    using c [of "churches ! 0"] c [of "churches ! 1"] by linarith
  have 3: "length (filter (\<lambda>e. title e = ch_name c @ '': '' @ ch_event c) (scrapeChurchEvents tz now)) \<le> 8"
    if "c \<in> set churches" for c
  proof -
    let ?P = "\<lambda>e. title e = ch_name c @ '': '' @ ch_event c"
    have cs: "c = churches ! 0 \<or> c = churches ! 1"
      using that by (auto simp: churches_def)
    have ne: "ch_name (churches ! 0) @ '': '' @ ch_event (churches ! 0)
              \<noteq> ch_name (churches ! 1) @ '': '' @ ch_event (churches ! 1)"
      by (simp add: churches_def)
    from cs show ?thesis
    proof
      assume c0: "c = churches ! 0"
      have "filter ?P (churchBody tz now [] (churches ! 1)) = []"
        using churchBody_title [of _ tz now "churches ! 1"] ne by (auto simp: filter_empty_conv c0)
      then have "length (filter ?P (scrapeChurchEvents tz now))
                 = length (filter ?P (churchBody tz now [] (churches ! 0)))"
        by (simp add: scrapeChurch_two)
      also have "\<dots> \<le> length (churchBody tz now [] (churches ! 0))"
        by (rule length_filter_le)
      finally show ?thesis
        using c [of "churches ! 0"] by linarith
    next
      assume c1: "c = churches ! 1"
      have "filter ?P (churchBody tz now [] (churches ! 0)) = []"
        using churchBody_title [of _ tz now "churches ! 0"] ne by (auto simp: filter_empty_conv c1)
      then have "length (filter ?P (scrapeChurchEvents tz now))
                 = length (filter ?P (churchBody tz now [] (churches ! 1)))"
        by (simp add: scrapeChurch_two)
      also have "\<dots> \<le> length (churchBody tz now [] (churches ! 1))"
        by (rule length_filter_le)
      finally show ?thesis
        using c [of "churches ! 1"] by linarith
    qed
  qed
  show ?thesis
    using 1 2 3 by blast
qed

theorem scraper_bounds_witness:
  "churches ! 0 \<in> set churches
   \<and> length (filter (\<lambda>e. title e = ch_name (churches ! 0) @ '': '' @ ch_event (churches ! 0))
                (scrapeChurchEvents easternAutumn2026 1793610000000)) \<le> 8"
  using scraper_bounds [of easternAutumn2026 1793610000000] by (simp add: churches_def)

text \<open>
  C8, amended. For a one-off community template with day offset 4 (and an hour from 0 to
  23), when \<open>now\<close> is a Tuesday, the template's date is a valid date, and no change of the
  zone moves the local time of \<open>now\<close> four days ahead to another day or skips the template's
  hour on that day, the community scraper's step for that template emits exactly one
  record; its start time is the template's hour on the Saturday four days later, which is
  strictly after \<open>now\<close>, as the record's presence in the final output requires; for a
  template of the scraper's own table the record is in the final output. The date is valid
  unless \<open>now\<close> is within 32 days of the end of the range of time values
  (\<open>communityDate_valid\<close>).
\<close>

theorem community_offset_four:
  assumes "WeekDay (LocalTime tz now) = 2"
    and "ce_date event = 4" and "0 \<le> ce_time event" and "ce_time event \<le> 23"
    and "communityDate tz now event \<noteq> None"
    and "staysOnDay tz (LocalTime tz now + 4 * msPerDay)"
    and "localTimeExists tz (MakeDate (Day (LocalTime tz now) + 4) (MakeTime (ce_time event) 0 0 0))"
  shows "communityBody tz now [] event =
           [communityRecord event
              (Some (UTC tz (MakeDate (Day (LocalTime tz now) + 4) (MakeTime (ce_time event) 0 0 0))))]
       \<and> WeekDay (LocalTime tz (UTC tz (MakeDate (Day (LocalTime tz now) + 4) (MakeTime (ce_time event) 0 0 0)))) = 6
       \<and> HourFromTime (LocalTime tz (UTC tz (MakeDate (Day (LocalTime tz now) + 4) (MakeTime (ce_time event) 0 0 0))))
           = ce_time event
       \<and> TimeWithinDay (LocalTime tz (UTC tz (MakeDate (Day (LocalTime tz now) + 4) (MakeTime (ce_time event) 0 0 0))))
           = MakeTime (ce_time event) 0 0 0
       \<and> (communityRecord event
              (Some (UTC tz (MakeDate (Day (LocalTime tz now) + 4) (MakeTime (ce_time event) 0 0 0))))
            \<in> set (fetchAllEvents tz now)
          \<longrightarrow> now < UTC tz (MakeDate (Day (LocalTime tz now) + 4) (MakeTime (ce_time event) 0 0 0)))
       \<and> (event \<in> set communityEvents
          \<longrightarrow> communityRecord event
              (Some (UTC tz (MakeDate (Day (LocalTime tz now) + 4) (MakeTime (ce_time event) 0 0 0))))
            \<in> set (fetchAllEvents tz now))"
proof -
  let ?T = "MakeDate (Day (LocalTime tz now) + 4) (MakeTime (ce_time event) 0 0 0)"
  have h: "0 \<le> ce_time event" "ce_time event < 24"
    using assms(3,4) by simp_all
  obtain a where a: "communityDate tz now event = Some a"
    using assms(5) by auto
  have "Day (LocalTime tz (UTC tz (LocalTime tz now + 4 * msPerDay))) = Day (LocalTime tz now) + 4"
    using assms(6) by (simp add: staysOnDay_def Day_shift)
  then have "a = UTC tz ?T"
    using communityDate_Some [OF a] assms(2) by simp
  then have d: "communityDate tz now event = Some (UTC tz ?T)"
    using a by simp
  have l: "now < UTC tz ?T"
    using h by (intro later_on_day) simp_all
  have b: "communityBody tz now [] event = [communityRecord event (Some (UTC tz ?T))]"
    using l by (simp add: communityBody_Nil d num_gt_Some)
  have e: "LocalTime tz (UTC tz ?T) = ?T"
    using assms(7) by (simp add: localTimeExists_def)
  have dd: "Day ?T = Day (LocalTime tz now) + 4" "TimeWithinDay ?T = MakeTime (ce_time event) 0 0 0"
    using h by (simp_all add: Day_MakeDate_hours)
  have w: "WeekDay ?T = 6"
    using WeekDay_shift [OF assms(1) dd(1)] by simp
  have hr: "HourFromTime ?T = ce_time event"
    using h by (rule HourFromTime_MakeDate)
  have m: "communityRecord event (Some (UTC tz ?T)) \<in> set (fetchAllEvents tz now)"
    if "event \<in> set communityEvents"
  proof -
    have "communityRecord event (Some (UTC tz ?T)) \<in> set (communityBody tz now [] event)"
      by (simp add: b)
    then have "communityRecord event (Some (UTC tz ?T)) \<in> set (scrapeYardSalesAndCommunityEvents tz now)"
      using that unfolding scrapeCommunity_eq by auto
    then show ?thesis
      by (simp add: fetchAllEvents_set)
  qed
  show ?thesis
    unfolding e using b w hr dd(2) l m by blast
qed

theorem community_offset_four_witness:
  "WeekDay (LocalTime easternAutumn2026 1793725200000) = 2
   \<and> ce_date (communityEvents ! 2) = 4 \<and> ce_time (communityEvents ! 2) = 19
   \<and> communityEvents ! 2 \<in> set communityEvents
   \<and> communityBody easternAutumn2026 1793725200000 [] (communityEvents ! 2)
       = [communityRecord (communityEvents ! 2) (Some 1794096000000)]
   \<and> communityRecord (communityEvents ! 2) (Some 1794096000000)
       \<in> set (fetchAllEvents easternAutumn2026 1793725200000)
   \<and> WeekDay (LocalTime easternAutumn2026 1794096000000) = 6
   \<and> HourFromTime (LocalTime easternAutumn2026 1794096000000) = 19
   \<and> (1793725200000::int) < 1794096000000"
proof -
  let ?z = easternAutumn2026
  have l: "LocalTime ?z 1793725200000 = 1793707200000"
    by (simp add: LocalTime_def LocalTZA_eastern)
  have dy: "Day 1793707200000 = 20760"
    by (simp add: Day_def msPerDay_def)
  have d: "WeekDay (LocalTime ?z 1793725200000) = 2"
    unfolding l by (simp add: WeekDay_def dy)
  have e: "ce_date (communityEvents ! 2) = 4" "0 \<le> ce_time (communityEvents ! 2)"
      "ce_time (communityEvents ! 2) \<le> 23" "ce_time (communityEvents ! 2) = 19"
      "communityEvents ! 2 \<in> set communityEvents"
    by (simp_all add: communityEvents_def)
  have v: "communityDate ?z 1793725200000 (communityEvents ! 2) \<noteq> None"
    by (rule communityDate_valid) (simp_all add: e msPerDay_def maxTime_def)
  have s: "staysOnDay ?z (LocalTime ?z 1793725200000 + 4 * msPerDay)"
    unfolding l
    by (simp add: staysOnDay_def UTC_def LocalTime_def LocalTZA_eastern Day_def msPerDay_def)
  have x: "localTimeExists ?z (MakeDate (Day (LocalTime ?z 1793725200000) + 4)
             (MakeTime (ce_time (communityEvents ! 2)) 0 0 0))"
    unfolding l dy e(4)
    by (simp add: localTimeExists_def MakeDate_def MakeTime_def UTC_def LocalTime_def LocalTZA_eastern
          msPerDay_def msPerHour_def)
  have t: "UTC ?z (MakeDate (Day (LocalTime ?z 1793725200000) + 4)
             (MakeTime (ce_time (communityEvents ! 2)) 0 0 0)) = 1794096000000"
    unfolding l dy e(4)
    by (simp add: UTC_def LocalTZA_eastern MakeDate_def MakeTime_def msPerDay_def msPerHour_def)
  have lt: "LocalTime ?z 1794096000000 = 1794078000000"
    by (simp add: LocalTime_def LocalTZA_eastern)
  show ?thesis
    using community_offset_four [OF d e(1-3) v s x] d e(1,4,5) unfolding t lt
    by simp
qed

theorem community_offset_four_counterexample:
  "WeekDay (LocalTime (fixedZone 0) 8639999654400000) = 2
   \<and> ce_date (communityEvents ! 2) = 4
   \<and> communityBody (fixedZone 0) 8639999654400000 [] (communityEvents ! 2) = []
   \<and> length (communityBody (fixedZone 0) 8639999654400000 [] (communityEvents ! 2)) = 0"
  using community_near_end
  by (simp add: WeekDay_def LocalTime_def Day_def msPerDay_def communityEvents_def)

text \<open>
  C9. Whatever \<open>now\<close> is, and whatever the zone does, no two records of the three
  scrapers' outputs have the same key, so the deduplication removes nothing:
  \<open>fetchAllEvents\<close> equals the pipeline without the deduplication step, and its output is
  as long as the three outputs together.
\<close>

theorem dedup_removes_nothing:
  "distinct (map eventKey (scrapeLexingtonFarmersMarket tz now @ scrapeChurchEvents tz now
                           @ scrapeYardSalesAndCommunityEvents tz now))
   \<and> uniqueEvents (scrapeLexingtonFarmersMarket tz now @ scrapeChurchEvents tz now
                           @ scrapeYardSalesAndCommunityEvents tz now)
       = Inr (scrapeLexingtonFarmersMarket tz now @ scrapeChurchEvents tz now
                           @ scrapeYardSalesAndCommunityEvents tz now)
   \<and> fetchAllEvents tz now = fetchAllEvents_noDedup tz now
   \<and> length (fetchAllEvents tz now)
       = length (scrapeLexingtonFarmersMarket tz now) + length (scrapeChurchEvents tz now)
         + length (scrapeYardSalesAndCommunityEvents tz now)"
proof -
  let ?all = "scrapeLexingtonFarmersMarket tz now @ scrapeChurchEvents tz now
                @ scrapeYardSalesAndCommunityEvents tz now"
  have d: "distinct (map eventKey ?all)"
    by (rule all_keys_distinct)
  have u: "uniqueEvents ?all = Inr ?all"
    using scrapers_valid d by (rule uniqueEvents_distinct)
  have f: "fetchAllEvents tz now = fetchAllEvents_noDedup tz now"
    using u by (simp add: fetchAllEvents_def aggregate_def fetchAllEvents_body_def catchEmpty_def
          fetchAllEvents_noDedup_def)
  have "fetchAllEvents_noDedup tz now = sort_key (\<lambda>e. the (startTime e)) ?all"
    unfolding fetchAllEvents_noDedup_def using scrapers_valid by (rule Array_sort_compareFn)
  then have "length (fetchAllEvents tz now) = length ?all"
    using f by simp
  then show ?thesis
    using d u f by simp
qed

text \<open>
  C10, amended. Whenever the four candidate dates are valid dates, only the first, same-day
  weekly candidate of the farmers market scraper can fail the future-only test: the
  candidates one, two and three weeks later are returned whatever the zone does, and the
  first one is returned exactly when it is after \<open>now\<close>. Where moreover the zone is regular
  on the way to the first candidate, the scraper returns exactly 3 records when \<open>now\<close> is,
  in local time, a Saturday at or after 08:00:00.000, and exactly 4 records otherwise. The
  candidates are valid dates unless \<open>now\<close> is within 32 days of the end of the range of
  time values (\<open>farmersDate_valid\<close>).
\<close>

theorem farmers_count:
  assumes "\<forall>i \<in> {0, 1, 2, 3}. farmersDate tz now i \<noteq> None"
  shows "map startTime (scrapeLexingtonFarmersMarket tz now) =
           map (farmersDate tz now)
             (if num_gt (getTime (farmersDate tz now 0)) (getTime (Some now))
              then [0, 1, 2, 3] else [1, 2, 3])
       \<and> (firstCandidateRegular tz now \<longrightarrow>
            length (scrapeLexingtonFarmersMarket tz now) =
              (if WeekDay (LocalTime tz now) = 6 \<and> 8 * msPerHour \<le> TimeWithinDay (LocalTime tz now)
               then 3 else 4)
          \<and> map startTime (scrapeLexingtonFarmersMarket tz now) =
              map (farmersDate tz now)
                (if WeekDay (LocalTime tz now) = 6 \<and> 8 * msPerHour \<le> TimeWithinDay (LocalTime tz now)
                 then [1, 2, 3] else [0, 1, 2, 3]))"
proof -
  have 1: "map startTime (scrapeLexingtonFarmersMarket tz now) =
           map (farmersDate tz now)
             (if num_gt (getTime (farmersDate tz now 0)) (getTime (Some now))
              then [0, 1, 2, 3] else [1, 2, 3])"
    unfolding farmers_first_only [OF assms] by (simp add: farmersMarketEvent_def)
  have 2: "length (scrapeLexingtonFarmersMarket tz now) =
              (if WeekDay (LocalTime tz now) = 6 \<and> 8 * msPerHour \<le> TimeWithinDay (LocalTime tz now)
               then 3 else 4)
          \<and> map startTime (scrapeLexingtonFarmersMarket tz now) =
              map (farmersDate tz now)
                (if WeekDay (LocalTime tz now) = 6 \<and> 8 * msPerHour \<le> TimeWithinDay (LocalTime tz now)
                 then [1, 2, 3] else [0, 1, 2, 3])"
    if "firstCandidateRegular tz now"
    unfolding farmers_regular [OF assms that] by (simp add: farmersMarketEvent_def)
  show ?thesis
    using 1 2 by blast
qed

theorem farmers_count_witness:
  "firstCandidateRegular easternAutumn2026 1793451600000
   \<and> WeekDay (LocalTime easternAutumn2026 1793451600000) = 6
   \<and> TimeWithinDay (LocalTime easternAutumn2026 1793451600000) = 9 * msPerHour
   \<and> length (scrapeLexingtonFarmersMarket easternAutumn2026 1793451600000) = 3
   \<and> firstCandidateRegular easternAutumn2026 1793507400000
   \<and> WeekDay (LocalTime easternAutumn2026 1793507400000) = 0
   \<and> length (scrapeLexingtonFarmersMarket easternAutumn2026 1793507400000) = 4"
proof -
  let ?z = easternAutumn2026
  have l: "LocalTime ?z 1793451600000 = 1793437200000" "LocalTime ?z 1793507400000 = 1793493000000"
    by (simp_all add: LocalTime_def LocalTZA_eastern)
  have d: "WeekDay (LocalTime ?z 1793451600000) = 6"
      "TimeWithinDay (LocalTime ?z 1793451600000) = 9 * msPerHour"
      "WeekDay (LocalTime ?z 1793507400000) = 0"
    unfolding l by (simp_all add: WeekDay_def Day_def TimeWithinDay_def msPerDay_def msPerHour_def)
  have v: "\<forall>i \<in> {0, 1, 2, 3}. farmersDate ?z 1793451600000 i \<noteq> None"
      "\<forall>i \<in> {0, 1, 2, 3}. farmersDate ?z 1793507400000 i \<noteq> None"
    using farmersDate_valid_all [of 1793451600000 ?z] farmersDate_valid_all [of 1793507400000 ?z]
    by (simp_all add: msPerDay_def maxTime_def)
  have r1: "firstCandidateRegular ?z 1793451600000"
    and r2: "firstCandidateRegular ?z 1793507400000"
    by (rule eastern_regular)+
  have "length (scrapeLexingtonFarmersMarket ?z 1793451600000) =
          (if WeekDay (LocalTime ?z 1793451600000) = 6
              \<and> 8 * msPerHour \<le> TimeWithinDay (LocalTime ?z 1793451600000) then 3 else 4)"
      "length (scrapeLexingtonFarmersMarket ?z 1793507400000) =
          (if WeekDay (LocalTime ?z 1793507400000) = 6
              \<and> 8 * msPerHour \<le> TimeWithinDay (LocalTime ?z 1793507400000) then 3 else 4)"
    using farmers_count [OF v(1)] farmers_count [OF v(2)] r1 r2 by blast+
  then show ?thesis
    using r1 r2 d by (simp add: msPerHour_def)
qed

theorem farmers_count_counterexample:
  "WeekDay (LocalTime (fixedZone 0) 8639998995600000) = 1
   \<and> firstCandidateRegular (fixedZone 0) 8639998995600000
   \<and> length (scrapeLexingtonFarmersMarket (fixedZone 0) 8639998995600000) = 1"
proof -
  have "WeekDay (LocalTime (fixedZone 0) 8639998995600000) = 1"
    by (simp add: WeekDay_def LocalTime_def Day_def msPerDay_def)
  then show ?thesis
    using farmers_near_end_length
    by (simp add: firstCandidateRegular_def Let_def msPerHour_def)
qed

end
